theory Spec2Isabelle
  imports Main "HOL-Library.AList"
begin

section \<open>Data model\<close>

text \<open>
  A calendar day. The sources key the day map by the \<^verbatim>\<open>YYYY-MM-DD\<close> string of a day
  (\<^verbatim>\<open>dateString(new Date())\<close>, \<^verbatim>\<open>moment().format('YYYY-MM-DD')\<close>); that string stands
  for one calendar day, which is kept here as the number of days since 1970-01-01.
\<close>

type_synonym date = int

text \<open>
  Modelled from the spec: the declaration of the stored calendar (\<^verbatim>\<open>ICalendar\<close>) is not
  among the sources. The spec gives the values of the day map as one of
  \<^verbatim>\<open>success\<close>, \<^verbatim>\<open>fail\<close>, \<^verbatim>\<open>breakday\<close>; an absent key is a day not yet recorded.
\<close>

datatype status = Success | Fail | Breakday

record notif_flags =
  reminders :: bool
  congrats :: bool

text \<open>
  The stored calendar, with the fields the sources read and write. The agenda holds
  numbers (\<^verbatim>\<open>[1, 1, 1, 1, 1, 1, 1]\<close> in \<^verbatim>\<open>addCalendar\<close>) indexed by weekday; the day map
  is a Mongoose map, kept as an association list read with \<^const>\<open>map_of\<close> and written
  with \<^const>\<open>AList.update\<close> (an existing key is overwritten in place).
\<close>

record calendar =
  cal_id :: nat
  user_id :: nat
  name :: string
  agenda :: "int list"
  days :: "(date \<times> status) list"
  cal_notifications :: "notif_flags option"

text \<open>
  The stored user's notification settings, with the fields \<^verbatim>\<open>sendReminders\<close> and
  \<^verbatim>\<open>sendCongratulation\<close> read. A time of day \<^verbatim>\<open>HH:MM\<close> is the pair of its hours and
  minutes; a field the sources read through \<^verbatim>\<open>??\<close> may be missing.
\<close>

record matrix_settings =
  room_id :: "string option"
  start_date :: "(nat \<times> nat) option"
  end_date :: "(nat \<times> nat) option"

record streaks_done_settings =
  enabled :: bool
  channel :: string
  sent_today :: bool

record user_notifications =
  matrix :: matrix_settings
  streaks_done :: streaks_done_settings

text \<open>
  The stored user, and the class \<^verbatim>\<open>User\<close>: the identifier given to the constructor,
  the fields copied from the stored user by \<^verbatim>\<open>init\<close>, and the flag
  \<^verbatim>\<open>initialized\<close>.
\<close>

record user_doc =
  uid :: nat
  username :: string
  notifications :: "user_notifications option"

record user = user_doc +
  initialized :: bool

text \<open>
  What the chat service is asked to send: the three sending methods of
  \<^verbatim>\<open>MatrixNotifications\<close> that the sources call, each to a room. A reminder carries
  the summary \<^verbatim>\<open>{name, fail, streaks}\<close> of the calendars.
\<close>

record summary_item =
  sum_name :: string
  sum_fail :: bool
  sum_streaks :: nat

datatype message =
    Reminder "summary_item list"
  | StreaksDone
  | Congratulation calendar

type_synonym send = "string \<times> message"

section \<open>Promises, the environment and the store\<close>

text \<open>
  The state of a promise: fulfilled with a value, rejected with the message of an error,
  or never settled. An \<^verbatim>\<open>await\<close> of a promise that never settles does not
  return, so the awaiting function stays pending as well.
\<close>

datatype 'a promise = Fulfilled 'a | Rejected string | Pending

text \<open>
  How the promise of a send ends: the chat service accepts the message, or refuses it
  (the promise is rejected), or never answers. The sources give the promise of a send a
  handler only in their last statement (\<^verbatim>\<open>Promise.allSettled\<close>), so it matters
  whether a refusal comes while the function still awaits the store, before that
  statement: a promise rejected with no handler ends the process (Node 15 and later).
\<close>

datatype send_end = Accepted | Refused string | Refused_early string | Hangs

text \<open>The operations of the document store that a run can find failing.\<close>

datatype db_op =
    GetCalendars
  | SetDayState nat
  | GetUsers
  | UserGetCalendars nat
  | SetStreaksDoneSentToday nat
  | GetUserById nat
  | SaveCalendar

text \<open>
  What a run reads from outside the program: the clock (the day, its weekday as
  \<^verbatim>\<open>getDay()\<close> numbers it, the time of day), the setting \<^verbatim>\<open>MATRIX_ENABLED\<close>, and
  for each operation of the store and for the connection to the chat service whether it
  fails, with the message of the error, and for each send how and when its promise ends. One run
  reads the clock several times; the day is taken to be the same at every read of a run.
\<close>

record env =
  today :: date
  weekday :: nat
  now :: "nat \<times> nat"
  matrix_enabled :: bool
  db_error :: "db_op \<Rightarrow> string option"
  connect_error :: "string option"
  send_outcome :: "send \<Rightarrow> send_end"

text \<open>
  What a run can change: the two collections of the store, the lines written with
  \<^verbatim>\<open>console.error\<close>, whether the chat service is connected, and whether
  \<^verbatim>\<open>process.exit\<close> has been called. The sends handed to the chat service are kept
  apart, as the list \<^verbatim>\<open>notificationsPromises\<close> of the sources: a send starts when its
  sending method is called, which is when its promise is pushed.
\<close>

record world =
  calendars :: "calendar list"
  users :: "user_doc list"
  console :: "string list"
  connected :: bool
  exited :: bool

definition console_error :: "string \<Rightarrow> world \<Rightarrow> world" where
  "console_error msg w = w\<lparr>console := console w @ [msg]\<rparr>"

text \<open>\<^verbatim>\<open>get(calendar, date)\<close> on the store: the status of a day of the calendar with an identifier.\<close>

definition find_calendar :: "world \<Rightarrow> nat \<Rightarrow> calendar option" where
  "find_calendar w cid = find (\<lambda>c. cal_id c = cid) (calendars w)"

definition day_state :: "world \<Rightarrow> nat \<Rightarrow> date \<Rightarrow> status option" where
  "day_state w cid d = (case find_calendar w cid of None \<Rightarrow> None | Some c \<Rightarrow> map_of (days c) d)"

section \<open>The breakday reconciler (daemons.ts)\<close>

text \<open>
  \<^verbatim>\<open>db_calendar.agenda[weekday]\<close> as a condition: an index outside the array reads
  \<^verbatim>\<open>undefined\<close>, and \<^verbatim>\<open>undefined\<close> and \<^verbatim>\<open>0\<close> count as false.
\<close>

definition agenda_expected :: "int list \<Rightarrow> nat \<Rightarrow> bool" where
  "agenda_expected ag wd = (wd < length ag \<and> ag ! wd \<noteq> 0)"

text \<open>
  Modelled from the spec: \<^verbatim>\<open>getCalendars\<close> of the database module is not among the
  sources. The spec gives it as the store's \<^verbatim>\<open>find calendars\<close>, which returns all
  calendars or fails.
\<close>

definition getCalendars :: "env \<Rightarrow> world \<Rightarrow> calendar list promise" where
  "getCalendars e w =
     (case db_error e GetCalendars of
        Some msg \<Rightarrow> Rejected msg
      | None \<Rightarrow> Fulfilled (calendars w))"

text \<open>
  Modelled from the spec: \<^verbatim>\<open>User.setDayState\<close> is not among the sources. The spec gives
  it as \<^verbatim>\<open>set(calendar, date, status)\<close>, with no effect but the entry of the map, and as
  an update by identifier that fails when the store cannot be reached or the calendar is
  not found; a failed update leaves the store as it was.
\<close>

definition setDayState :: "env \<Rightarrow> nat \<Rightarrow> date \<Rightarrow> status \<Rightarrow> world \<Rightarrow> unit promise \<times> world" where
  "setDayState e cid d st w =
     (case db_error e (SetDayState cid) of
        Some msg \<Rightarrow> (Rejected msg, w)
      | None \<Rightarrow>
          (if cid \<in> cal_id ` set (calendars w)
           then (Fulfilled (),
                 w\<lparr>calendars :=
                     map (\<lambda>c. if cal_id c = cid then c\<lparr>days := AList.update d st (days c)\<rparr> else c)
                       (calendars w)\<rparr>)
           else (Rejected ''Calendar not found'', w)))"

text \<open>
  The promise that \<^verbatim>\<open>setBreakdays\<close> builds for one calendar of the list it has read
  (lines 22 to 39). The update is asked for when the agenda has nothing at today's weekday
  and the status read for today is not \<^verbatim>\<open>success\<close>; its rejection is caught and
  written to the console, and \<^verbatim>\<open>resolve\<close> is called once it has settled. The other
  two branches call \<^verbatim>\<open>resolve\<close> at once.
\<close>

definition breakday_promise :: "env \<Rightarrow> calendar \<Rightarrow> world \<Rightarrow> unit promise \<times> world" where
  "breakday_promise e db_calendar w =
     (if \<not> agenda_expected (agenda db_calendar) (weekday e) then
        (if map_of (days db_calendar) (today e) \<noteq> Some Success then
           (case setDayState e (cal_id db_calendar) (today e) Breakday w of
              (Fulfilled u, w') \<Rightarrow> (Fulfilled (), w')
            | (Rejected msg, w') \<Rightarrow> (Fulfilled (), console_error (''Daemons: '' @ msg) w')
            | (Pending, w') \<Rightarrow> (Pending, w'))
         else (Fulfilled (), w))
      else (Fulfilled (), w))"

text \<open>\<^verbatim>\<open>db_calendars.forEach\<close>: one promise for each calendar read, in the order of the list.\<close>

fun forEach_calendar :: "env \<Rightarrow> calendar list \<Rightarrow> world \<Rightarrow> unit promise list \<times> world" where
  "forEach_calendar e [] w = ([], w)"
| "forEach_calendar e (c # cs) w =
     (case breakday_promise e c w of
        (p, w') \<Rightarrow> (case forEach_calendar e cs w' of (ps, w'') \<Rightarrow> (p # ps, w'')))"

text \<open>
  \<^verbatim>\<open>Promise.allSettled\<close>: fulfilled with the outcomes once every promise of the list has
  settled, whatever the outcomes; it never rejects.
\<close>

definition allSettled :: "'a promise list \<Rightarrow> 'a promise list promise" where
  "allSettled ps = (if Pending \<in> set ps then Pending else Fulfilled ps)"

text \<open>
  \<^verbatim>\<open>setBreakdays\<close>: the promise it returns and the world it leaves. \<^verbatim>\<open>resolve\<close> is
  called in the \<^verbatim>\<open>then\<close> of \<^verbatim>\<open>allSettled\<close>, or in the \<^verbatim>\<open>catch\<close> of the chain,
  after the error has been written to the console. The promise of \<^verbatim>\<open>allSettled\<close> is
  not returned to the chain, so nothing would call \<^verbatim>\<open>resolve\<close> if it were rejected.
\<close>

definition setBreakdays :: "env \<Rightarrow> world \<Rightarrow> unit promise \<times> world" where
  "setBreakdays e w =
     (case getCalendars e w of
        Fulfilled db_calendars \<Rightarrow>
          (case forEach_calendar e db_calendars w of
             (promisesList, w') \<Rightarrow>
               (case allSettled promisesList of
                  Fulfilled rs \<Rightarrow> (Fulfilled (), w')
                | Rejected msg \<Rightarrow> (Pending, w')
                | Pending \<Rightarrow> (Pending, w')))
      | Rejected msg \<Rightarrow> (Fulfilled (), console_error (''Daemons: '' @ msg) w)
      | Pending \<Rightarrow> (Pending, w))"

section \<open>The streak counter\<close>

text \<open>The weekday of a day, numbered as \<^verbatim>\<open>getDay()\<close> does: 1970-01-01, day 0, was a Thursday.\<close>

definition weekday_of :: "date \<Rightarrow> nat" where
  "weekday_of d = nat ((d + 4) mod 7)"

text \<open>
  Modelled from the spec: \<^verbatim>\<open>countStreaks\<close> (of the utilities in daemons.ts, a method of
  \<^verbatim>\<open>Calendar\<close> in notifications.ts) is not among the sources. The spec gives it as a
  walk backward, one day at a time: a day with status \<^verbatim>\<open>success\<close> counts and the walk
  goes on; a day the agenda expects ends the walk when its status is \<^verbatim>\<open>fail\<close> or it
  has no recorded status; a day marked \<^verbatim>\<open>breakday\<close>, and a day the agenda does not
  expect, is skipped; the streak is the number of \<^verbatim>\<open>success\<close> statuses met before the
  walk ends. The spec gives the result as an integer for every calendar, so the walk is
  cut below the earliest recorded day \<open>lo\<close>: no status is recorded there and the
  count cannot change any more.
\<close>

function walk_back :: "int list \<Rightarrow> (date \<times> status) list \<Rightarrow> date \<Rightarrow> date \<Rightarrow> nat \<Rightarrow> nat" where
  "walk_back ag ds lo d n =
     (if d < lo then n
      else
        (case map_of ds d of
           Some Success \<Rightarrow> walk_back ag ds lo (d - 1) (Suc n)
         | Some Breakday \<Rightarrow> walk_back ag ds lo (d - 1) n
         | Some Fail \<Rightarrow>
             (if agenda_expected ag (weekday_of d) then n else walk_back ag ds lo (d - 1) n)
         | None \<Rightarrow>
             (if agenda_expected ag (weekday_of d) then n else walk_back ag ds lo (d - 1) n)))"
  by pat_completeness auto
termination
  by (relation "measure (\<lambda>(ag, ds, lo, d, n). nat (d + 1 - lo))") auto

declare walk_back.simps [simp del]

text \<open>
  Modelled from the spec: the walk of \<^verbatim>\<open>countStreaks\<close> starts at the most recent day
  with a recorded status that is not in the future, so that a day not yet recorded neither
  counts nor breaks the streak; a calendar with no such day has streak 0. The current
  day is an argument.
\<close>

definition countStreaks :: "date \<Rightarrow> calendar \<Rightarrow> nat" where
  "countStreaks t c =
     (case filter (\<lambda>d. d \<le> t) (map fst (days c)) of
        [] \<Rightarrow> 0
      | k # ks \<Rightarrow> walk_back (agenda c) (days c) (fold min (map fst (days c)) k) (fold max ks k) 0)"

section \<open>Reminders and congratulations (notifications.ts)\<close>

text \<open>A time of day \<^verbatim>\<open>HH:MM\<close> in minutes.\<close>

definition minutes :: "nat \<times> nat \<Rightarrow> nat" where
  "minutes t = 60 * fst t + snd t"

text \<open>
  Modelled from the spec: \<^verbatim>\<open>hour_between\<close> of the utilities is not among the sources.
  The spec gives it as the test that the window from \<^verbatim>\<open>start_date\<close> to \<^verbatim>\<open>end_date\<close>,
  which wraps around midnight when the end is before the start, contains the current
  time of day. The source reads the clock inside the function; here the time is an
  argument. The bounds are taken to belong to the window.
\<close>

definition hour_between :: "nat \<times> nat \<Rightarrow> nat \<times> nat \<Rightarrow> nat \<times> nat \<Rightarrow> bool" where
  "hour_between t start_d end_d =
     (if minutes start_d \<le> minutes end_d
      then minutes start_d \<le> minutes t \<and> minutes t \<le> minutes end_d
      else minutes start_d \<le> minutes t \<or> minutes t \<le> minutes end_d)"

text \<open>
  The readings of the Matrix settings: \<^verbatim>\<open>room_id ?? false\<close> as a condition (a missing
  or empty room is false), \<^verbatim>\<open>room_id ?? ''\<close>, \<^verbatim>\<open>start_date ?? '00:00'\<close> and
  \<^verbatim>\<open>end_date ?? '24:00'\<close>.
\<close>

definition room_set :: "matrix_settings \<Rightarrow> bool" where
  "room_set m = (case room_id m of None \<Rightarrow> False | Some r \<Rightarrow> r \<noteq> [])"

definition room_of :: "matrix_settings \<Rightarrow> string" where
  "room_of m = (case room_id m of None \<Rightarrow> [] | Some r \<Rightarrow> r)"

definition start_of :: "matrix_settings \<Rightarrow> nat \<times> nat" where
  "start_of m = (case start_date m of None \<Rightarrow> (0, 0) | Some t \<Rightarrow> t)"

definition end_of :: "matrix_settings \<Rightarrow> nat \<times> nat" where
  "end_of m = (case end_date m of None \<Rightarrow> (24, 0) | Some t \<Rightarrow> t)"

text \<open>
  Modelled from the spec: \<^verbatim>\<open>MatrixNotifications\<close> is not among the sources. The spec
  gives the chat service as \<^verbatim>\<open>connect\<close>, which can fail, \<^verbatim>\<open>send\<close> to a room, which
  can fail, and \<^verbatim>\<open>disconnect\<close>. Lines 16 to 22 of \<^verbatim>\<open>sendReminders\<close> (and 84 to 90 of
  \<^verbatim>\<open>sendCongratulation\<close>): the value is whether \<^verbatim>\<open>matrix\<close> is defined.
\<close>

definition matrix_connect :: "env \<Rightarrow> world \<Rightarrow> bool promise \<times> world" where
  "matrix_connect e w =
     (if matrix_enabled e then
        (case connect_error e of
           Some msg \<Rightarrow> (Rejected msg, w)
         | None \<Rightarrow> (Fulfilled True, w\<lparr>connected := True\<rparr>))
      else (Fulfilled False, w))"

text \<open>\<^verbatim>\<open>getUsers\<close>: every stored user, as an initialised \<^verbatim>\<open>User\<close>, or the error of the store.\<close>

definition init_user :: "user_doc \<Rightarrow> user" where
  "init_user d =
     \<lparr>uid = uid d, username = username d, notifications = notifications d, initialized = True\<rparr>"

definition getUsers :: "env \<Rightarrow> world \<Rightarrow> user list promise" where
  "getUsers e w =
     (case db_error e GetUsers of
        Some msg \<Rightarrow> Rejected msg
      | None \<Rightarrow> Fulfilled (map init_user (users w)))"

text \<open>
  \<^verbatim>\<open>User.getCalendars\<close>: a user that is not initialised ends the process, which leaves
  the promise pending; otherwise the calendars of the user, or the error of the store.
\<close>

definition user_getCalendars :: "env \<Rightarrow> user \<Rightarrow> world \<Rightarrow> calendar list promise \<times> world" where
  "user_getCalendars e u w =
     (if \<not> initialized u then
        (Pending, w\<lparr>console := console w @ [''The user has not been initialized.''], exited := True\<rparr>)
      else
        (case db_error e (UserGetCalendars (uid u)) of
           Some msg \<Rightarrow> (Rejected msg, w)
         | None \<Rightarrow> (Fulfilled (filter (\<lambda>c. user_id c = uid u) (calendars w)), w)))"

text \<open>The stored user with the flag \<^verbatim>\<open>streaks_done.sent_today\<close> given a value.\<close>

definition set_sent_today :: "bool \<Rightarrow> user_doc \<Rightarrow> user_doc" where
  "set_sent_today b d =
     d\<lparr>notifications :=
         map_option (\<lambda>n. n\<lparr>streaks_done := (streaks_done n)\<lparr>sent_today := b\<rparr>\<rparr>) (notifications d)\<rparr>"

text \<open>
  Modelled from the spec: \<^verbatim>\<open>User.setStreaksDoneSentToday\<close> is not among the sources. The
  spec gives it as the update of a notification field of a stored user, by identifier,
  which can fail; a failed update leaves the store as it was.
\<close>

definition setStreaksDoneSentToday :: "env \<Rightarrow> user \<Rightarrow> bool \<Rightarrow> world \<Rightarrow> unit promise \<times> world" where
  "setStreaksDoneSentToday e u b w =
     (case db_error e (SetStreaksDoneSentToday (uid u)) of
        Some msg \<Rightarrow> (Rejected msg, w)
      | None \<Rightarrow>
          (if uid u \<in> uid ` set (users w)
           then (Fulfilled (),
                 w\<lparr>users := map (\<lambda>d. if uid d = uid u then set_sent_today b d else d) (users w)\<rparr>)
           else (Rejected ''User not found'', w)))"

text \<open>
  The loop over the calendars of a user (lines 36 to 46). A calendar without the
  \<^verbatim>\<open>reminders\<close> flag is passed over; a calendar counts as done when today has a status
  and the status is not \<^verbatim>\<open>fail\<close>.
\<close>

definition reminders_on :: "calendar \<Rightarrow> bool" where
  "reminders_on c = (case cal_notifications c of None \<Rightarrow> False | Some f \<Rightarrow> reminders f)"

definition done_today :: "date \<Rightarrow> calendar \<Rightarrow> bool" where
  "done_today t c = (case map_of (days c) t of None \<Rightarrow> False | Some s \<Rightarrow> s \<noteq> Fail)"

fun calendars_loop ::
  "date \<Rightarrow> calendar list \<Rightarrow> summary_item list \<times> bool \<Rightarrow> summary_item list \<times> bool" where
  "calendars_loop t [] (summary, has_fails) = (summary, has_fails)"
| "calendars_loop t (c # cs) (summary, has_fails) =
     (if \<not> reminders_on c then calendars_loop t cs (summary, has_fails)
      else if done_today t c then
        calendars_loop t cs
          (summary @ [\<lparr>sum_name = name c, sum_fail = False, sum_streaks = countStreaks t c\<rparr>], has_fails)
      else
        calendars_loop t cs
          (summary @ [\<lparr>sum_name = name c, sum_fail = True, sum_streaks = countStreaks t c\<rparr>], True))"

text \<open>
  The promise of a send as the last statement finds it, and whether one of the sends
  pushed so far is refused before that statement.
\<close>

definition settled :: "send_end \<Rightarrow> unit promise" where
  "settled r =
     (case r of
        Accepted \<Rightarrow> Fulfilled ()
      | Refused msg \<Rightarrow> Rejected msg
      | Refused_early msg \<Rightarrow> Rejected msg
      | Hangs \<Rightarrow> Pending)"

definition unhandled :: "env \<Rightarrow> send list \<Rightarrow> bool" where
  "unhandled e ps =
     list_ex (\<lambda>s. case send_outcome e s of
                    Refused_early msg \<Rightarrow> True
                  | Accepted \<Rightarrow> False
                  | Refused msg \<Rightarrow> False
                  | Hangs \<Rightarrow> False) ps"

text \<open>
  An \<^verbatim>\<open>await\<close> of an operation of the store, with sends pushed and no handler on
  their promises yet: the operation has been asked of the store; when one of the sends is
  refused during the wait the process ends and the function never resumes.
\<close>

definition await_store :: "env \<Rightarrow> send list \<Rightarrow> 'a promise \<times> world \<Rightarrow> 'a promise \<times> world" where
  "await_store e ps rw = (if unhandled e ps then (Pending, (snd rw)\<lparr>exited := True\<rparr>) else rw)"

text \<open>
  The body of the loop over the users (lines 29 to 66), on the sends pushed so far and
  the world. An awaited promise that is rejected ends \<^verbatim>\<open>sendReminders\<close> with that
  rejection; the sends already pushed have started all the same. The store is awaited at
  line 32, with the sends of the users before, and at lines 54 and 65, with the send of
  this user as well.
\<close>

definition remind_user ::
  "env \<Rightarrow> bool \<Rightarrow> user \<Rightarrow> send list \<times> world \<Rightarrow> unit promise \<times> send list \<times> world" where
  "remind_user e matrix_on u st =
     (case st of (ps, w) \<Rightarrow>
       (case notifications u of
          None \<Rightarrow> (Fulfilled (), ps, w)
        | Some n \<Rightarrow>
           (case await_store e ps (user_getCalendars e u w) of
              (Rejected msg, w1) \<Rightarrow> (Rejected msg, ps, w1)
            | (Pending, w1) \<Rightarrow> (Pending, ps, w1)
            | (Fulfilled cals, w1) \<Rightarrow>
               (case calendars_loop (today e) cals ([], False) of
                  (summary, has_fails) \<Rightarrow>
                    if has_fails then
                      (let ps1 =
                         (if matrix_on \<and> room_set (matrix n) then
                            (if hour_between (now e) (start_of (matrix n)) (end_of (matrix n))
                             then ps @ [(room_of (matrix n), Reminder summary)]
                             else ps)
                          else ps)
                       in if sent_today (streaks_done n) then
                            (case await_store e ps1 (setStreaksDoneSentToday e u False w1) of
                               (r, w2) \<Rightarrow> (r, ps1, w2))
                          else (Fulfilled (), ps1, w1))
                    else if enabled (streaks_done n) \<and> channel (streaks_done n) \<noteq> []
                            \<and> \<not> sent_today (streaks_done n) then
                      (let ps1 =
                         (if matrix_on \<and> channel (streaks_done n) = ''matrix'' \<and> room_set (matrix n)
                          then ps @ [(room_of (matrix n), StreaksDone)]
                          else ps)
                       in (case await_store e ps1 (setStreaksDoneSentToday e u True w1) of
                             (r, w2) \<Rightarrow> (r, ps1, w2)))
                    else (Fulfilled (), ps, w1)))))"

fun users_loop ::
  "env \<Rightarrow> bool \<Rightarrow> user list \<Rightarrow> send list \<times> world \<Rightarrow> unit promise \<times> send list \<times> world" where
  "users_loop e matrix_on [] (ps, w) = (Fulfilled (), ps, w)"
| "users_loop e matrix_on (u # us) (ps, w) =
     (case remind_user e matrix_on u (ps, w) of
        (Fulfilled x, ps', w') \<Rightarrow> users_loop e matrix_on us (ps', w')
      | (Rejected msg, ps', w') \<Rightarrow> (Rejected msg, ps', w')
      | (Pending, ps', w') \<Rightarrow> (Pending, ps', w'))"

text \<open>
  The end of \<^verbatim>\<open>sendReminders\<close> (lines 69 to 72), of \<^verbatim>\<open>sendCongratulation\<close> (lines 102
  to 105) and of \<^verbatim>\<open>sendNotifications\<close> in daemons.ts (lines 83 to 86): the sends pushed
  are awaited together with \<^verbatim>\<open>Promise.allSettled\<close>, and the chat service is
  disconnected in the \<^verbatim>\<open>then\<close> of that promise.
\<close>

definition dispatch :: "env \<Rightarrow> bool \<Rightarrow> send list \<Rightarrow> world \<Rightarrow> unit promise \<times> world" where
  "dispatch e matrix_on notificationsPromises w =
     (case allSettled (map (\<lambda>s. settled (send_outcome e s)) notificationsPromises) of
        Fulfilled rs \<Rightarrow> (Fulfilled (), if matrix_on then w\<lparr>connected := False\<rparr> else w)
      | Rejected msg \<Rightarrow> (Rejected msg, w)
      | Pending \<Rightarrow> (Pending, w))"

text \<open>\<^verbatim>\<open>sendReminders\<close>: its promise, the sends it has started, and the world it leaves.\<close>

definition sendReminders :: "env \<Rightarrow> world \<Rightarrow> unit promise \<times> send list \<times> world" where
  "sendReminders e w =
     (case matrix_connect e w of
        (Rejected msg, w1) \<Rightarrow> (Rejected msg, [], w1)
      | (Pending, w1) \<Rightarrow> (Pending, [], w1)
      | (Fulfilled matrix_on, w1) \<Rightarrow>
         (case getUsers e w1 of
            Rejected msg \<Rightarrow> (Rejected msg, [], w1)
          | Pending \<Rightarrow> (Pending, [], w1)
          | Fulfilled us \<Rightarrow>
             (case users_loop e matrix_on us ([], w1) of
                (Rejected msg, ps, w2) \<Rightarrow> (Rejected msg, ps, w2)
              | (Pending, ps, w2) \<Rightarrow> (Pending, ps, w2)
              | (Fulfilled x, ps, w2) \<Rightarrow>
                 (case dispatch e matrix_on ps w2 of (r, w3) \<Rightarrow> (r, ps, w3)))))"

text \<open>
  \<^verbatim>\<open>sendCongratulation\<close>, for a user and a calendar: it returns at once when today has a
  status and the status is not \<^verbatim>\<open>success\<close> (lines 94 to 96). Nothing is awaited between
  the push of the send and the last statement.
\<close>

definition sendCongratulation ::
  "env \<Rightarrow> user \<Rightarrow> calendar \<Rightarrow> world \<Rightarrow> unit promise \<times> send list \<times> world" where
  "sendCongratulation e u c w =
     (case matrix_connect e w of
        (Rejected msg, w1) \<Rightarrow> (Rejected msg, [], w1)
      | (Pending, w1) \<Rightarrow> (Pending, [], w1)
      | (Fulfilled matrix_on, w1) \<Rightarrow>
         (if (case map_of (days c) (today e) of None \<Rightarrow> False | Some s \<Rightarrow> s \<noteq> Success)
          then (Fulfilled (), [], w1)
          else
            (let ps =
               (case notifications u of
                  None \<Rightarrow> []
                | Some n \<Rightarrow>
                   (if matrix_on \<and> room_set (matrix n) then
                      (if hour_between (now e) (start_of (matrix n)) (end_of (matrix n))
                       then [(room_of (matrix n), Congratulation c)]
                       else [])
                    else []))
             in (case dispatch e matrix_on ps w1 of (r, w2) \<Rightarrow> (r, ps, w2)))))"

section \<open>Adding a calendar (the class User)\<close>

text \<open>\<^verbatim>\<open>getUserById\<close>: the stored user with the identifier, initialised, or the error.\<close>

definition getUserById :: "env \<Rightarrow> nat \<Rightarrow> world \<Rightarrow> user promise" where
  "getUserById e i w =
     (case db_error e (GetUserById i) of
        Some msg \<Rightarrow> Rejected msg
      | None \<Rightarrow>
          (case find (\<lambda>d. uid d = i) (users w) of
             None \<Rightarrow> Rejected ''User does not exist''
           | Some db_user \<Rightarrow> Fulfilled (init_user db_user)))"

text \<open>The identifier the store gives a saved document is one no stored calendar has.\<close>

definition new_cal_id :: "world \<Rightarrow> nat" where
  "new_cal_id w = Suc (fold max (map cal_id (calendars w)) 0)"

text \<open>
  \<^verbatim>\<open>User.addCalendar\<close>: a user that is not initialised ends the process; otherwise the
  user is read again from the store, the new calendar is saved, and the promise is
  fulfilled with the saved calendar. \<^verbatim>\<open>Calendar.init\<close> is not among the sources and is
  taken to copy the saved document.
\<close>

definition addCalendar :: "env \<Rightarrow> user \<Rightarrow> string \<Rightarrow> world \<Rightarrow> calendar promise \<times> world" where
  "addCalendar e this nm w =
     (if \<not> initialized this then
        (Pending, w\<lparr>console := console w @ [''The user has not been initialized.''], exited := True\<rparr>)
      else
        (case getUserById e (uid this) w of
           Rejected msg \<Rightarrow> (Rejected msg, w)
         | Pending \<Rightarrow> (Pending, w)
         | Fulfilled usr \<Rightarrow>
             (case db_error e SaveCalendar of
                Some msg \<Rightarrow> (Rejected msg, w)
              | None \<Rightarrow>
                  (let data = \<lparr>cal_id = new_cal_id w, user_id = uid usr, name = nm,
                                agenda = [1, 1, 1, 1, 1, 1, 1], days = [],
                                cal_notifications = Some \<lparr>reminders = True, congrats = True\<rparr>\<rparr>
                   in (Fulfilled data, w\<lparr>calendars := calendars w @ [data]\<rparr>)))))"

text \<open>
  What one sweep does to a stored calendar, for stating the properties: the update is
  written when it is asked for and the store does not fail it.
\<close>

definition mark_breakday :: "date \<Rightarrow> calendar \<Rightarrow> calendar" where
  "mark_breakday t c = c\<lparr>days := AList.update t Breakday (days c)\<rparr>"

definition breakday_written :: "env \<Rightarrow> calendar \<Rightarrow> bool" where
  "breakday_written e c =
     (\<not> agenda_expected (agenda c) (weekday e) \<and> map_of (days c) (today e) \<noteq> Some Success
      \<and> db_error e (SetDayState (cal_id c)) = None)"

definition reconcile :: "env \<Rightarrow> calendar \<Rightarrow> calendar" where
  "reconcile e c =
     (if db_error e GetCalendars = None \<and> breakday_written e c then mark_breakday (today e) c else c)"

text \<open>
  For stating the properties of the reminders: whether one of the calendars of a user
  that have the \<^verbatim>\<open>reminders\<close> flag is not done today, the calendars of a user, the
  stored user with an identifier and its flag \<^verbatim>\<open>sent_today\<close>, the sends that the body of
  the loop pushes for a user, and the kinds of sends.
\<close>

definition has_failing :: "date \<Rightarrow> calendar list \<Rightarrow> bool" where
  "has_failing t cals = list_ex (\<lambda>c. reminders_on c \<and> \<not> done_today t c) cals"

definition calendars_of :: "world \<Rightarrow> nat \<Rightarrow> calendar list" where
  "calendars_of w i = filter (\<lambda>c. user_id c = i) (calendars w)"

definition find_user :: "world \<Rightarrow> nat \<Rightarrow> user_doc option" where
  "find_user w i = find (\<lambda>d. uid d = i) (users w)"

definition stored_sent_today :: "world \<Rightarrow> nat \<Rightarrow> bool option" where
  "stored_sent_today w i =
     (case find_user w i of
        None \<Rightarrow> None
      | Some d \<Rightarrow> map_option (\<lambda>n. sent_today (streaks_done n)) (notifications d))"

definition user_sends :: "env \<Rightarrow> bool \<Rightarrow> world \<Rightarrow> user \<Rightarrow> send list" where
  "user_sends e matrix_on w u = fst (snd (remind_user e matrix_on u ([], w)))"

definition is_streaks_done :: "send \<Rightarrow> bool" where
  "is_streaks_done s = (case snd s of StreaksDone \<Rightarrow> True | Reminder x \<Rightarrow> False | Congratulation c \<Rightarrow> False)"

definition is_reminder :: "send \<Rightarrow> bool" where
  "is_reminder s = (case snd s of Reminder x \<Rightarrow> True | StreaksDone \<Rightarrow> False | Congratulation c \<Rightarrow> False)"

subsection \<open>A store and three runs, for the examples\<close>

text \<open>
  Saturday 2022-01-08 is day 19000. Calendar 1 rests at the weekend and has nothing
  recorded, calendar 2 is expected every day and has failed today, calendar 3 rests at the
  weekend and was done today all the same.
\<close>

definition cal_gym :: calendar where
  "cal_gym = \<lparr>cal_id = 1, user_id = 1, name = ''gym'', agenda = [0, 1, 1, 1, 1, 1, 0],
     days = [], cal_notifications = Some \<lparr>reminders = True, congrats = True\<rparr>\<rparr>"

definition cal_read :: calendar where
  "cal_read = \<lparr>cal_id = 2, user_id = 1, name = ''read'', agenda = [1, 1, 1, 1, 1, 1, 1],
     days = [(19000, Fail)], cal_notifications = Some \<lparr>reminders = True, congrats = True\<rparr>\<rparr>"

definition cal_run :: calendar where
  "cal_run = \<lparr>cal_id = 3, user_id = 2, name = ''run'', agenda = [0, 1, 1, 1, 1, 1, 0],
     days = [(18999, Fail), (19000, Success)],
     cal_notifications = Some \<lparr>reminders = True, congrats = False\<rparr>\<rparr>"

definition store0 :: world where
  "store0 = \<lparr>calendars = [cal_gym, cal_read, cal_run], users = [], console = [],
     connected = False, exited = False\<rparr>"

definition cal_week :: calendar where
  "cal_week = cal_read\<lparr>days := [(18995, Fail), (18996, Success), (18997, Success),
     (18998, Breakday), (18999, Success), (19000, Success)]\<rparr>"

text \<open>
  Three users. The first has two calendars not done today and the flag \<^verbatim>\<open>sent_today\<close>
  set; the second has its only calendar done, and a window from 22:00 to 06:00; the third
  has its only calendar done and no channel chosen for the congratulation.
\<close>

definition cal_swim :: calendar where
  "cal_swim = \<lparr>cal_id = 4, user_id = 3, name = ''swim'', agenda = [1, 1, 1, 1, 1, 1, 1],
     days = [(19000, Success)], cal_notifications = Some \<lparr>reminders = True, congrats = True\<rparr>\<rparr>"

definition alice :: user_doc where
  "alice = \<lparr>uid = 1, username = ''alice'', notifications = Some
     \<lparr>matrix = \<lparr>room_id = Some ''!alice'', start_date = Some (8, 0), end_date = Some (22, 0)\<rparr>,
      streaks_done = \<lparr>enabled = True, channel = ''matrix'', sent_today = True\<rparr>\<rparr>\<rparr>"

definition bob :: user_doc where
  "bob = \<lparr>uid = 2, username = ''bob'', notifications = Some
     \<lparr>matrix = \<lparr>room_id = Some ''!bob'', start_date = Some (22, 0), end_date = Some (6, 0)\<rparr>,
      streaks_done = \<lparr>enabled = True, channel = ''matrix'', sent_today = False\<rparr>\<rparr>\<rparr>"

definition carol :: user_doc where
  "carol = \<lparr>uid = 3, username = ''carol'', notifications = Some
     \<lparr>matrix = \<lparr>room_id = Some ''!carol'', start_date = None, end_date = None\<rparr>,
      streaks_done = \<lparr>enabled = True, channel = [], sent_today = False\<rparr>\<rparr>\<rparr>"

definition store1 :: world where
  "store1 = \<lparr>calendars = [cal_gym, cal_read, cal_run, cal_swim], users = [alice, bob, carol],
     console = [], connected = False, exited = False\<rparr>"

definition saturday :: env where
  "saturday = \<lparr>today = 19000, weekday = 6, now = (12, 0), matrix_enabled = True,
     db_error = (\<lambda>op. None), connect_error = None, send_outcome = (\<lambda>s. Accepted)\<rparr>"

definition saturday_no_list :: env where
  "saturday_no_list = saturday\<lparr>db_error := (\<lambda>op. if op = GetCalendars then Some ''no connection'' else None)\<rparr>"

definition saturday_no_update :: env where
  "saturday_no_update = saturday\<lparr>db_error := (\<lambda>op. if op = SetDayState 1 then Some ''no connection'' else None)\<rparr>"

definition saturday_night :: env where
  "saturday_night = saturday\<lparr>now := (23, 0)\<rparr>"

definition saturday_no_matrix :: env where
  "saturday_no_matrix = saturday\<lparr>matrix_enabled := False\<rparr>"

text \<open>
  Runs at 23:00, inside the window of the second user: with Matrix disabled, with a
  connection to the chat service that fails, and with a store that fails the update of
  the flag of the second user.
\<close>

definition saturday_night_no_matrix :: env where
  "saturday_night_no_matrix = saturday_night\<lparr>matrix_enabled := False\<rparr>"

definition saturday_night_no_connect :: env where
  "saturday_night_no_connect = saturday_night\<lparr>connect_error := Some ''no homeserver''\<rparr>"

definition saturday_night_no_flag :: env where
  "saturday_night_no_flag =
     saturday_night\<lparr>db_error :=
       (\<lambda>op. if op = SetStreaksDoneSentToday 2 then Some ''no connection'' else None)\<rparr>"

text \<open>
  Runs at noon: with a connection to the chat service that fails, with a store that fails
  the update of the flag of the first user, and with a chat service that refuses the
  reminder of the first user while the sweep awaits the store.
\<close>

definition saturday_no_connect :: env where
  "saturday_no_connect = saturday\<lparr>connect_error := Some ''no homeserver''\<rparr>"

definition saturday_no_reset :: env where
  "saturday_no_reset =
     saturday\<lparr>db_error :=
       (\<lambda>op. if op = SetStreaksDoneSentToday 1 then Some ''no connection'' else None)\<rparr>"

definition saturday_refused_early :: env where
  "saturday_refused_early =
     saturday\<lparr>send_outcome :=
       (\<lambda>s. if fst s = ''!alice'' then Refused_early ''M_FORBIDDEN'' else Accepted)\<rparr>"

definition saturday_refused :: env where
  "saturday_refused =
     saturday\<lparr>send_outcome :=
       (\<lambda>s. if fst s = ''!alice'' then Refused ''M_FORBIDDEN'' else Accepted)\<rparr>"

section \<open>Properties of the breakday reconciler\<close>

lemma mark_breakday_idem: "mark_breakday t (mark_breakday t c) = mark_breakday t c"
  by (simp add: mark_breakday_def)

lemma cal_id_reconcile: "cal_id (reconcile e c) = cal_id c"
  by (simp add: reconcile_def mark_breakday_def)

text \<open>The calendars of the store after an update by identifier, failed or not.\<close>

lemma setDayState_calendars:
  "calendars (snd (setDayState e cid d st w)) =
     map (\<lambda>c. if cal_id c = cid \<and> db_error e (SetDayState cid) = None
               then c\<lparr>days := AList.update d st (days c)\<rparr> else c) (calendars w)"
proof (cases "db_error e (SetDayState cid)")
  case (Some msg)
  then show ?thesis by (simp add: setDayState_def)
next
  case None
  show ?thesis
  proof (cases "cid \<in> cal_id ` set (calendars w)")
    case True
    with None show ?thesis by (simp add: setDayState_def)
  next
    case False
    then have "map (\<lambda>c. if cal_id c = cid then c\<lparr>days := AList.update d st (days c)\<rparr> else c)
                 (calendars w) = calendars w"
      by (intro map_idI) auto
    with None False show ?thesis by (simp add: setDayState_def)
  qed
qed

lemma setDayState_settles: "fst (setDayState e cid d st w) \<noteq> Pending"
  by (simp add: setDayState_def split: option.splits)

lemma breakday_promise_calendars:
  "calendars (snd (breakday_promise e c w)) =
     map (\<lambda>x. if cal_id x = cal_id c \<and> breakday_written e c then mark_breakday (today e) x else x)
       (calendars w)"
proof -
  obtain r w' where sd: "setDayState e (cal_id c) (today e) Breakday w = (r, w')"
    by (cases "setDayState e (cal_id c) (today e) Breakday w")
  have cw': "calendars w' =
      map (\<lambda>x. if cal_id x = cal_id c \<and> db_error e (SetDayState (cal_id c)) = None
                then mark_breakday (today e) x else x) (calendars w)"
    using setDayState_calendars [of e "cal_id c" "today e" Breakday w] sd
    by (simp add: mark_breakday_def)
  show ?thesis
    using sd cw'
    by (cases r) (auto simp: breakday_promise_def breakday_written_def console_error_def map_idI)
qed

lemma breakday_promise_fulfilled: "fst (breakday_promise e c w) = Fulfilled ()"
proof -
  obtain r w' where sd: "setDayState e (cal_id c) (today e) Breakday w = (r, w')"
    by (cases "setDayState e (cal_id c) (today e) Breakday w")
  with setDayState_settles [of e "cal_id c" "today e" Breakday w] have "r \<noteq> Pending" by simp
  with sd show ?thesis by (cases r) (auto simp: breakday_promise_def)
qed

text \<open>
  The loop over the calendars read: a stored calendar is marked when one of the calendars
  read has its identifier and had its update written.
\<close>

lemma forEach_calendar_calendars:
  "calendars (snd (forEach_calendar e cs w)) =
     map (\<lambda>x. if \<exists>c \<in> set cs. cal_id c = cal_id x \<and> breakday_written e c
               then mark_breakday (today e) x else x) (calendars w)"
proof (induction cs arbitrary: w)
  case Nil
  then show ?case by (simp add: map_idI)
next
  case (Cons c cs)
  obtain p w' where bp: "breakday_promise e c w = (p, w')"
    by (cases "breakday_promise e c w")
  obtain ps w'' where fe: "forEach_calendar e cs w' = (ps, w'')"
    by (cases "forEach_calendar e cs w'")
  have 1: "calendars w' =
      map (\<lambda>x. if cal_id x = cal_id c \<and> breakday_written e c then mark_breakday (today e) x else x)
        (calendars w)"
    using breakday_promise_calendars [of e c w] bp by simp
  have 2: "calendars w'' =
      map (\<lambda>x. if \<exists>c \<in> set cs. cal_id c = cal_id x \<and> breakday_written e c
                then mark_breakday (today e) x else x) (calendars w')"
    using Cons.IH [of w'] fe by simp
  have id: "\<And>x. cal_id (mark_breakday (today e) x) = cal_id x"
    by (simp add: mark_breakday_def)
  show ?case
    using bp fe by (auto simp: 1 2 id mark_breakday_idem)
qed

lemma forEach_calendar_settled: "Pending \<notin> set (fst (forEach_calendar e cs w))"
proof (induction cs arbitrary: w)
  case Nil
  then show ?case by simp
next
  case (Cons c cs)
  obtain p w' where bp: "breakday_promise e c w = (p, w')"
    by (cases "breakday_promise e c w")
  obtain ps w'' where fe: "forEach_calendar e cs w' = (ps, w'')"
    by (cases "forEach_calendar e cs w'")
  from breakday_promise_fulfilled [of e c w] bp have "p = Fulfilled ()" by simp
  moreover from Cons.IH [of w'] fe have "Pending \<notin> set ps" by simp
  ultimately show ?case using bp fe by simp
qed

lemma setBreakdays_calendars_raw:
  "calendars (snd (setBreakdays e w)) =
     map (\<lambda>x. if db_error e GetCalendars = None
                  \<and> (\<exists>c \<in> set (calendars w). cal_id c = cal_id x \<and> breakday_written e c)
               then mark_breakday (today e) x else x) (calendars w)"
proof (cases "db_error e GetCalendars")
  case (Some msg)
  then show ?thesis
    by (simp add: setBreakdays_def getCalendars_def console_error_def map_idI)
next
  case None
  obtain ps w' where fe: "forEach_calendar e (calendars w) w = (ps, w')"
    by (cases "forEach_calendar e (calendars w) w")
  have "calendars w' =
      map (\<lambda>x. if \<exists>c \<in> set (calendars w). cal_id c = cal_id x \<and> breakday_written e c
                then mark_breakday (today e) x else x) (calendars w)"
    using forEach_calendar_calendars [of e "calendars w" w] fe by simp
  with None fe show ?thesis
    by (simp add: setBreakdays_def getCalendars_def console_error_def split: promise.splits)
qed

text \<open>With identifiers that are unique, as the store keeps them, a sweep reconciles each calendar by itself.\<close>

lemma setBreakdays_calendars:
  assumes "distinct (map cal_id (calendars w))"
  shows "calendars (snd (setBreakdays e w)) = map (reconcile e) (calendars w)"
proof -
  have "\<And>x. x \<in> set (calendars w) \<Longrightarrow>
          (\<exists>c \<in> set (calendars w). cal_id c = cal_id x \<and> breakday_written e c) = breakday_written e x"
    using assms by (auto simp: distinct_map inj_on_def)
  then show ?thesis
    unfolding setBreakdays_calendars_raw reconcile_def by (intro map_cong) auto
qed

lemma find_by_id:
  assumes "distinct (map cal_id cs)" and "c \<in> set cs"
  shows "find (\<lambda>x. cal_id x = cal_id c) cs = Some c"
  using assms by (induction cs) (auto simp: rev_image_eqI)

lemma find_calendar_setBreakdays:
  assumes "distinct (map cal_id (calendars w))" and "c \<in> set (calendars w)"
  shows "find_calendar (snd (setBreakdays e w)) (cal_id c) = Some (reconcile e c)"
proof -
  let ?cs = "map (reconcile e) (calendars w)"
  have d: "distinct (map cal_id ?cs)"
    using assms(1) by (simp add: comp_def cal_id_reconcile)
  have m: "reconcile e c \<in> set ?cs"
    using assms(2) by simp
  from find_by_id [OF d m] show ?thesis
    by (simp add: find_calendar_def setBreakdays_calendars [OF assms(1)] cal_id_reconcile)
qed

lemma reconcile_idem: "reconcile e (reconcile e c) = reconcile e c"
  by (auto simp: reconcile_def breakday_written_def mark_breakday_def update_conv')

lemma reconcile_settled:
  assumes "db_error e GetCalendars = None" and "db_error e (SetDayState (cal_id c)) = None"
    and "today e' = today e" and "weekday e' = weekday e"
  shows "reconcile e' (reconcile e c) = reconcile e c"
proof (cases "breakday_written e c")
  case True
  with assms show ?thesis by (simp add: reconcile_def mark_breakday_idem)
next
  case False
  with assms have "\<not> breakday_written e' c" by (auto simp: breakday_written_def)
  with False show ?thesis by (simp add: reconcile_def)
qed

lemma reconcile_keeps_success:
  "map_of (days c) d = Some Success \<Longrightarrow> map_of (days (reconcile e c)) d = Some Success"
  by (auto simp: reconcile_def breakday_written_def mark_breakday_def update_conv')

lemmas example_store_defs =
  store0_def cal_gym_def cal_read_def cal_run_def saturday_def saturday_no_list_def
  saturday_no_update_def

lemmas example_user_defs =
  store1_def cal_gym_def cal_read_def cal_run_def cal_swim_def alice_def bob_def carol_def
  saturday_def saturday_night_def saturday_no_matrix_def saturday_night_no_matrix_def
  saturday_night_no_connect_def saturday_night_no_flag_def saturday_no_connect_def
  saturday_no_reset_def saturday_refused_early_def saturday_refused_def

lemmas setBreakdays_defs =
  setBreakdays_def getCalendars_def breakday_promise_def setDayState_def allSettled_def
  console_error_def agenda_expected_def find_calendar_def day_state_def

text \<open>
  C1. For every calendar of the store and the day of a run: when the agenda has nothing
  at today's weekday and the status stored for today is absent or is not \<open>success\<close>, the
  sweep asks the store to set today's status to \<open>breakday\<close>, and the status is
  \<open>breakday\<close> afterwards when the store has listed the calendars and written the update;
  when today's weekday is expected by the agenda, or today's status is \<open>success\<close>
  already, the stored calendar, and so its entry for today, is left as it was.
\<close>

theorem setBreakdays_today:
  assumes "distinct (map cal_id (calendars w))" and "c \<in> set (calendars w)"
  shows "(\<not> agenda_expected (agenda c) (weekday e) \<and> map_of (days c) (today e) \<noteq> Some Success
            \<and> db_error e GetCalendars = None \<and> db_error e (SetDayState (cal_id c)) = None
          \<longrightarrow> day_state (snd (setBreakdays e w)) (cal_id c) (today e) = Some Breakday)
       \<and> (agenda_expected (agenda c) (weekday e) \<or> map_of (days c) (today e) = Some Success
          \<longrightarrow> find_calendar (snd (setBreakdays e w)) (cal_id c) = Some c
              \<and> day_state (snd (setBreakdays e w)) (cal_id c) (today e) = map_of (days c) (today e))"
  using find_calendar_setBreakdays [OF assms, of e]
  by (auto simp: day_state_def reconcile_def breakday_written_def mark_breakday_def update_conv')

theorem setBreakdays_today_witness:
  "day_state (snd (setBreakdays saturday store0)) 1 19000 = Some Breakday
   \<and> find_calendar (snd (setBreakdays saturday store0)) 2 = Some cal_read
   \<and> day_state (snd (setBreakdays saturday store0)) 2 19000 = Some Fail
   \<and> find_calendar (snd (setBreakdays saturday store0)) 3 = Some cal_run
   \<and> day_state (snd (setBreakdays saturday store0)) 3 19000 = Some Success"
proof -
  have d: "distinct (map cal_id (calendars store0))"
    by (simp add: example_store_defs)
  have m: "cal_gym \<in> set (calendars store0)" "cal_read \<in> set (calendars store0)"
    "cal_run \<in> set (calendars store0)"
    by (simp_all add: store0_def)
  from setBreakdays_today [OF d m(1), of saturday] setBreakdays_today [OF d m(2), of saturday]
    setBreakdays_today [OF d m(3), of saturday]
  show ?thesis
    by (simp add: example_store_defs agenda_expected_def)
qed

text \<open>
  C2. With the day fixed, a second sweep leaves the calendars of the store as the first
  one left them: under the same conditions of the store, and, when the first sweep had all
  its updates written, whatever the second one meets. No sweep changes a day whose status
  is \<open>success\<close>.
\<close>

theorem setBreakdays_idempotent:
  assumes "distinct (map cal_id (calendars w))"
  shows "calendars (snd (setBreakdays e (snd (setBreakdays e w)))) = calendars (snd (setBreakdays e w))
       \<and> (db_error e GetCalendars = None
            \<and> (\<forall>c \<in> set (calendars w). db_error e (SetDayState (cal_id c)) = None)
            \<and> today e' = today e \<and> weekday e' = weekday e
          \<longrightarrow> calendars (snd (setBreakdays e' (snd (setBreakdays e w)))) = calendars (snd (setBreakdays e w)))
       \<and> (\<forall>c \<in> set (calendars w). \<forall>d. map_of (days c) d = Some Success
          \<longrightarrow> day_state (snd (setBreakdays e w)) (cal_id c) d = Some Success)"
proof -
  let ?w1 = "snd (setBreakdays e w)"
  have c1: "calendars ?w1 = map (reconcile e) (calendars w)"
    by (rule setBreakdays_calendars [OF assms])
  have d1: "distinct (map cal_id (calendars ?w1))"
    using assms by (simp add: c1 comp_def cal_id_reconcile)
  have twice: "\<And>e2. calendars (snd (setBreakdays e2 ?w1)) =
      map (reconcile e2) (map (reconcile e) (calendars w))"
    using setBreakdays_calendars [OF d1] by (simp add: c1)
  have i: "calendars (snd (setBreakdays e ?w1)) = calendars ?w1"
    by (simp add: twice c1 reconcile_idem)
  have ii: "calendars (snd (setBreakdays e' ?w1)) = calendars ?w1"
    if "db_error e GetCalendars = None"
      "\<forall>c \<in> set (calendars w). db_error e (SetDayState (cal_id c)) = None"
      "today e' = today e" "weekday e' = weekday e"
    using that by (simp add: twice c1 reconcile_settled)
  have iii: "day_state ?w1 (cal_id c) d = Some Success"
    if "c \<in> set (calendars w)" "map_of (days c) d = Some Success" for c d
    using find_calendar_setBreakdays [OF assms that(1), of e]
      reconcile_keeps_success [OF that(2), of e]
    by (simp add: day_state_def)
  from i ii iii show ?thesis by blast
qed

theorem setBreakdays_idempotent_witness:
  "calendars (snd (setBreakdays saturday (snd (setBreakdays saturday store0))))
     = calendars (snd (setBreakdays saturday store0))
   \<and> calendars (snd (setBreakdays saturday_no_update (snd (setBreakdays saturday store0))))
     = calendars (snd (setBreakdays saturday store0))
   \<and> map_of (days cal_run) 19000 = Some Success
   \<and> day_state (snd (setBreakdays saturday store0)) 3 19000 = Some Success
   \<and> day_state (snd (setBreakdays saturday store0)) 1 19000 = Some Breakday"
proof -
  have d: "distinct (map cal_id (calendars store0))"
    by (simp add: example_store_defs)
  have ok: "db_error saturday GetCalendars = None"
    "\<forall>c \<in> set (calendars store0). db_error saturday (SetDayState (cal_id c)) = None"
    "today saturday_no_update = today saturday" "weekday saturday_no_update = weekday saturday"
    by (simp_all add: example_store_defs)
  have m: "cal_run \<in> set (calendars store0)" "map_of (days cal_run) 19000 = Some Success"
    "cal_id cal_run = 3"
    by (simp_all add: example_store_defs)
  have b: "day_state (snd (setBreakdays saturday store0)) 1 19000 = Some Breakday"
    by (simp add: example_store_defs setBreakdays_defs)
  from setBreakdays_idempotent [OF d, of saturday saturday_no_update] ok m b
  show ?thesis by auto
qed

text \<open>
  C10. The promise that \<^verbatim>\<open>setBreakdays\<close> returns is fulfilled whatever the store does:
  when listing the calendars fails, the error is written to the console, nothing else
  changes and the promise is fulfilled; a failed update of a calendar is caught in the
  promise of that calendar, so the sweep is fulfilled all the same.
\<close>

theorem setBreakdays_resolves:
  "fst (setBreakdays e w) = Fulfilled ()
   \<and> (\<forall>msg. db_error e GetCalendars = Some msg
        \<longrightarrow> snd (setBreakdays e w) = w\<lparr>console := console w @ [''Daemons: '' @ msg]\<rparr>)"
proof -
  obtain ps w' where fe: "forEach_calendar e (calendars w) w = (ps, w')"
    by (cases "forEach_calendar e (calendars w) w")
  with forEach_calendar_settled [of e "calendars w" w] have "Pending \<notin> set ps" by simp
  with fe show ?thesis
    by (auto simp: setBreakdays_def getCalendars_def allSettled_def console_error_def
        split: option.splits)
qed

theorem setBreakdays_resolves_witness:
  "db_error saturday_no_list GetCalendars = Some ''no connection''
   \<and> fst (setBreakdays saturday_no_list store0) = Fulfilled ()
   \<and> snd (setBreakdays saturday_no_list store0) = store0\<lparr>console := [''Daemons: no connection'']\<rparr>
   \<and> db_error saturday_no_update (SetDayState 1) = Some ''no connection''
   \<and> fst (setBreakdays saturday_no_update store0) = Fulfilled ()
   \<and> console (snd (setBreakdays saturday_no_update store0)) = [''Daemons: no connection'']
   \<and> day_state (snd (setBreakdays saturday_no_update store0)) 1 19000 = None"
proof -
  have l: "db_error saturday_no_list GetCalendars = Some ''no connection''"
    "db_error saturday_no_update (SetDayState 1) = Some ''no connection''"
    by (simp_all add: example_store_defs)
  have c: "console store0 = []"
    by (simp add: store0_def)
  have u: "console (snd (setBreakdays saturday_no_update store0)) = [''Daemons: no connection'']"
    "day_state (snd (setBreakdays saturday_no_update store0)) 1 19000 = None"
    by (simp_all add: example_store_defs setBreakdays_defs)
  from setBreakdays_resolves [of saturday_no_list store0]
    setBreakdays_resolves [of saturday_no_update store0] l c u
  show ?thesis by simp
qed

section \<open>Properties of the streak counter\<close>

lemma walk_back_no_success:
  assumes "\<forall>k. map_of ds k \<noteq> Some Success"
  shows "walk_back ag ds lo d n = n"
  using assms
proof (induction ag ds lo d n rule: walk_back.induct)
  case (1 ag ds lo d n)
  show ?case
  proof (cases "d < lo")
    case True
    then show ?thesis by (subst walk_back.simps) simp
  next
    case False
    from "1.prems" have ns: "map_of ds d \<noteq> Some Success"
      by simp
    show ?thesis
    proof (cases "map_of ds d")
      case None
      with False "1.IH" "1.prems" show ?thesis
        by (subst walk_back.simps) auto
    next
      case (Some st)
      with ns have "st = Fail \<or> st = Breakday"
        by (cases st) auto
      with False Some "1.IH" "1.prems" show ?thesis
        by (subst walk_back.simps) auto
    qed
  qed
qed

text \<open>The walk counts: four successes around a break day, then a failed day.\<close>

lemma countStreaks_example: "countStreaks 19000 cal_week = 4"
  by code_simp

text \<open>
  C3. For every calendar whose day map has no day with status \<open>success\<close>, and whatever
  the current day, \<^verbatim>\<open>countStreaks\<close> returns 0.
\<close>

theorem countStreaks_no_success:
  assumes "\<forall>d. map_of (days c) d \<noteq> Some Success"
  shows "countStreaks t c = 0"
proof (cases "filter (\<lambda>d. d \<le> t) (map fst (days c))")
  case Nil
  then show ?thesis by (simp add: countStreaks_def)
next
  case (Cons k ks)
  from walk_back_no_success [of "days c", OF assms] Cons show ?thesis
    by (simp add: countStreaks_def)
qed

theorem countStreaks_no_success_witness:
  "(\<forall>d. map_of (days cal_read) d \<noteq> Some Success) \<and> countStreaks 19000 cal_read = 0"
proof -
  have h: "\<forall>d. map_of (days cal_read) d \<noteq> Some Success"
    by (simp add: cal_read_def)
  from countStreaks_no_success [OF h, of 19000] h show ?thesis by simp
qed

section \<open>Properties of the reminders\<close>

lemma calendars_loop_has_fails:
  "snd (calendars_loop t cs (s, h)) = (h \<or> has_failing t cs)"
  by (induction cs arbitrary: s h) (auto simp: has_failing_def)

lemma find_user_by_id:
  assumes "distinct (map uid ds)" and "d \<in> set ds"
  shows "find (\<lambda>x. uid x = uid d) ds = Some d"
  using assms by (induction ds) (auto simp: rev_image_eqI)

lemma uid_set_sent_today: "uid (set_sent_today b d) = uid d"
  by (simp add: set_sent_today_def)

lemma find_map_uid:
  assumes "\<And>x. uid (g x) = uid x"
  shows "find (\<lambda>x. uid x = i) (map g ds) = map_option g (find (\<lambda>x. uid x = i) ds)"
  using assms by (induction ds) auto

lemma find_map_other:
  "i \<noteq> j \<Longrightarrow>
     find (\<lambda>x. uid x = i) (map (\<lambda>x. if uid x = j then set_sent_today b x else x) ds)
       = find (\<lambda>x. uid x = i) ds"
  by (induction ds) (auto simp: uid_set_sent_today)

text \<open>With no send refused before the last statement, an await of the store is the operation itself.\<close>

lemma no_early_unhandled:
  assumes "\<forall>s msg. send_outcome e s \<noteq> Refused_early msg"
  shows "\<not> unhandled e ps"
  using assms by (auto simp: unhandled_def list_ex_iff split: send_end.splits)

lemma await_store_quiet:
  assumes "\<forall>s msg. send_outcome e s \<noteq> Refused_early msg"
  shows "await_store e ps rw = rw"
  using no_early_unhandled [OF assms] by (simp add: await_store_def)

text \<open>What the body of the loop leaves alone: the calendars, and every stored user but its own.\<close>

lemma await_store_frame:
  assumes "await_store e ps (r, w) = (r', w')"
  shows "calendars w' = calendars w \<and> users w' = users w"
  using assms by (auto simp: await_store_def split: if_splits)

lemma setStreaksDoneSentToday_frame:
  assumes "setStreaksDoneSentToday e u b w = (r, w')"
  shows "calendars w' = calendars w \<and> map uid (users w') = map uid (users w)
    \<and> (i \<noteq> uid u \<longrightarrow> find_user w' i = find_user w i)"
  using assms
  by (auto simp: setStreaksDoneSentToday_def find_user_def find_map_other uid_set_sent_today
      split: option.splits if_splits)

lemma user_getCalendars_frame:
  assumes "user_getCalendars e u w = (r, w')"
  shows "calendars w' = calendars w" and "users w' = users w"
  using assms by (auto simp: user_getCalendars_def split: option.splits if_splits)

lemma await_update_frame:
  assumes "await_store e ps (setStreaksDoneSentToday e u b w) = (r, w')"
  shows "calendars w' = calendars w \<and> map uid (users w') = map uid (users w)
    \<and> (i \<noteq> uid u \<longrightarrow> find_user w' i = find_user w i)"
proof -
  obtain r0 w0 where s: "setStreaksDoneSentToday e u b w = (r0, w0)"
    by (cases "setStreaksDoneSentToday e u b w")
  from assms s have "await_store e ps (r0, w0) = (r, w')"
    by simp
  from await_store_frame [OF this] setStreaksDoneSentToday_frame [OF s, of i] show ?thesis
    by (simp add: find_user_def)
qed

lemma remind_user_frame:
  assumes "remind_user e mx u (ps, w) = (r, ps', w')"
  shows "calendars w' = calendars w \<and> map uid (users w') = map uid (users w)
    \<and> (i \<noteq> uid u \<longrightarrow> find_user w' i = find_user w i)"
proof (cases "notifications u")
  case None
  with assms show ?thesis by (simp add: remind_user_def)
next
  case (Some n)
  obtain r0 w0 where g0: "user_getCalendars e u w = (r0, w0)"
    by (cases "user_getCalendars e u w")
  obtain rc w1 where gc: "await_store e ps (r0, w0) = (rc, w1)"
    by (cases "await_store e ps (r0, w0)")
  from user_getCalendars_frame [OF g0] await_store_frame [OF gc]
  have f1: "calendars w1 = calendars w" "users w1 = users w"
    by simp_all
  have "w' = w1 \<or> (\<exists>psx b r2. await_store e psx (setStreaksDoneSentToday e u b w1) = (r2, w'))"
    using assms Some g0 gc
    by (auto simp: remind_user_def Let_def split: promise.splits prod.splits if_splits)
  then show ?thesis
  proof
    assume "w' = w1"
    with f1 show ?thesis by (simp add: find_user_def)
  next
    assume "\<exists>psx b r2. await_store e psx (setStreaksDoneSentToday e u b w1) = (r2, w')"
    then obtain psx b r2 where "await_store e psx (setStreaksDoneSentToday e u b w1) = (r2, w')"
      by blast
    from await_update_frame [OF this, of i] f1 show ?thesis
      by (simp add: find_user_def)
  qed
qed

lemma users_loop_frame:
  assumes "users_loop e mx us (ps, w) = (r, ps', w')"
  shows "calendars w' = calendars w \<and> map uid (users w') = map uid (users w)
    \<and> ((\<forall>u \<in> set us. uid u \<noteq> i) \<longrightarrow> find_user w' i = find_user w i)"
  using assms
proof (induction us arbitrary: ps w)
  case Nil
  then show ?case by simp
next
  case (Cons u us)
  obtain r1 ps1 w1 where b: "remind_user e mx u (ps, w) = (r1, ps1, w1)"
    by (cases "remind_user e mx u (ps, w)")
  note f = remind_user_frame [OF b, of i]
  show ?case
  proof (cases r1)
    case (Fulfilled x)
    with Cons.prems b have "users_loop e mx us (ps1, w1) = (r, ps', w')"
      by simp
    from Cons.IH [OF this] f show ?thesis by auto
  next
    case (Rejected msg)
    with Cons.prems b f show ?thesis by auto
  next
    case Pending
    with Cons.prems b f show ?thesis by auto
  qed
qed

text \<open>
  The body of the loop for a listed user, when the store answers and no send is refused
  before the last statement.
\<close>

lemma remind_user_ok:
  assumes "notifications d = Some n" and "\<forall>op. db_error e op = None"
    and "\<forall>s msg. send_outcome e s \<noteq> Refused_early msg"
    and "uid d \<in> uid ` set (users w)"
  shows "remind_user e mx (init_user d) (ps, w) =
     (if has_failing (today e) (calendars_of w (uid d)) then
        (Fulfilled (),
         (if mx \<and> room_set (matrix n)
              \<and> hour_between (now e) (start_of (matrix n)) (end_of (matrix n))
          then ps @ [(room_of (matrix n),
                 Reminder (fst (calendars_loop (today e) (calendars_of w (uid d)) ([], False))))]
          else ps),
         (if sent_today (streaks_done n)
          then w\<lparr>users := map (\<lambda>x. if uid x = uid d then set_sent_today False x else x) (users w)\<rparr>
          else w))
      else if enabled (streaks_done n) \<and> channel (streaks_done n) \<noteq> []
              \<and> \<not> sent_today (streaks_done n) then
        (Fulfilled (),
         (if mx \<and> channel (streaks_done n) = ''matrix'' \<and> room_set (matrix n)
          then ps @ [(room_of (matrix n), StreaksDone)] else ps),
         w\<lparr>users := map (\<lambda>x. if uid x = uid d then set_sent_today True x else x) (users w)\<rparr>)
      else (Fulfilled (), ps, w))"
proof -
  obtain sm hf where cl: "calendars_loop (today e) (calendars_of w (uid d)) ([], False) = (sm, hf)"
    by (cases "calendars_loop (today e) (calendars_of w (uid d)) ([], False)")
  with calendars_loop_has_fails [of "today e" "calendars_of w (uid d)" "[]" False]
  have hf: "hf = has_failing (today e) (calendars_of w (uid d))"
    by simp
  have upd: "\<And>b. setStreaksDoneSentToday e (init_user d) b w =
      (Fulfilled (),
       w\<lparr>users := map (\<lambda>x. if uid x = uid d then set_sent_today b x else x) (users w)\<rparr>)"
    using assms(2,4) by (auto simp: setStreaksDoneSentToday_def init_user_def)
  have gc: "user_getCalendars e (init_user d) w = (Fulfilled (calendars_of w (uid d)), w)"
    using assms(2) by (simp add: user_getCalendars_def init_user_def calendars_of_def)
  have nn: "notifications (init_user d) = Some n"
    using assms(1) by (simp add: init_user_def)
  show ?thesis
    using cl hf
    by (auto simp: remind_user_def nn gc upd await_store_quiet [OF assms(3)] Let_def)
qed

text \<open>A user whose flag is set gets no congratulation for all calendars done, whatever the run meets.\<close>

lemma remind_user_no_streaks_done:
  assumes "notifications u = Some n" and "sent_today (streaks_done n)"
  shows "filter is_streaks_done (fst (snd (remind_user e mx u (ps, w)))) = filter is_streaks_done ps"
  using assms
  by (auto simp: remind_user_def is_streaks_done_def Let_def
      split: prod.splits promise.splits)

text \<open>Outside the window of the user the body pushes no reminder.\<close>

lemma remind_user_window:
  assumes "notifications u = Some n"
    and "\<not> hour_between (now e) (start_of (matrix n)) (end_of (matrix n))"
  shows "filter is_reminder (fst (snd (remind_user e mx u (ps, w)))) = filter is_reminder ps"
  using assms
  by (auto simp: remind_user_def is_reminder_def Let_def
      split: prod.splits promise.splits)

text \<open>
  With no send refused before the last statement, what the body of the loop pushes for a
  user depends on the calendars only, and a fulfilled loop has pushed, user after user,
  what each body pushes.
\<close>

lemma user_getCalendars_calendars:
  assumes "calendars w1 = calendars w"
  shows "fst (user_getCalendars e u w1) = fst (user_getCalendars e u w)"
  using assms by (simp add: user_getCalendars_def split: option.splits)

lemma remind_user_sends:
  assumes "calendars w1 = calendars w" and "\<forall>s msg. send_outcome e s \<noteq> Refused_early msg"
  shows "fst (snd (remind_user e mx u (ps, w1))) = ps @ user_sends e mx w u"
proof (cases "notifications u")
  case None
  then show ?thesis by (simp add: remind_user_def user_sends_def)
next
  case (Some n)
  obtain rc wa where g1: "user_getCalendars e u w1 = (rc, wa)"
    by (cases "user_getCalendars e u w1")
  obtain rc' wb where g2: "user_getCalendars e u w = (rc', wb)"
    by (cases "user_getCalendars e u w")
  from user_getCalendars_calendars [OF assms(1), of e u] g1 g2 have rc: "rc' = rc"
    by simp
  note quiet = await_store_quiet [OF assms(2)]
  show ?thesis
  proof (cases rc)
    case (Fulfilled cals)
    obtain sm hf where cl: "calendars_loop (today e) cals ([], False) = (sm, hf)"
      by (cases "calendars_loop (today e) cals ([], False)")
    obtain a1 a2 where s1: "setStreaksDoneSentToday e u False wa = (a1, a2)"
      by (cases "setStreaksDoneSentToday e u False wa")
    obtain b1 b2 where s2: "setStreaksDoneSentToday e u True wa = (b1, b2)"
      by (cases "setStreaksDoneSentToday e u True wa")
    obtain c1 c2 where s3: "setStreaksDoneSentToday e u False wb = (c1, c2)"
      by (cases "setStreaksDoneSentToday e u False wb")
    obtain d1 d2 where s4: "setStreaksDoneSentToday e u True wb = (d1, d2)"
      by (cases "setStreaksDoneSentToday e u True wb")
    from Some g1 g2 rc Fulfilled cl s1 s2 s3 s4 show ?thesis
      by (auto simp: remind_user_def user_sends_def quiet Let_def)
  next
    case (Rejected msg)
    with Some g1 g2 rc show ?thesis by (simp add: remind_user_def user_sends_def quiet)
  next
    case Pending
    with Some g1 g2 rc show ?thesis by (simp add: remind_user_def user_sends_def quiet)
  qed
qed

lemma users_loop_sends:
  assumes "users_loop e mx us (ps, w1) = (Fulfilled x, ps', w')" and "calendars w1 = calendars w"
    and "\<forall>s msg. send_outcome e s \<noteq> Refused_early msg"
  shows "ps' = ps @ concat (map (user_sends e mx w) us)"
  using assms(1,2)
proof (induction us arbitrary: ps w1)
  case Nil
  then show ?case by simp
next
  case (Cons u us)
  obtain r1 ps1 wa where b: "remind_user e mx u (ps, w1) = (r1, ps1, wa)"
    by (cases "remind_user e mx u (ps, w1)")
  with Cons.prems(1) obtain y where r1: "r1 = Fulfilled y"
    and rest: "users_loop e mx us (ps1, wa) = (Fulfilled x, ps', w')"
    by (cases r1) auto
  from remind_user_sends [OF Cons.prems(2) assms(3), of mx u ps] b
  have ps1: "ps1 = ps @ user_sends e mx w u"
    by simp
  from remind_user_frame [OF b, of 0] Cons.prems(2) have "calendars wa = calendars w"
    by simp
  from Cons.IH [OF rest this] ps1 show ?case by simp
qed

text \<open>
  A fulfilled loop over users with unique identifiers has run the body of each of them,
  on the calendars and on the stored user it started with, and has left the stored user as
  that body left it.
\<close>

lemma users_loop_visits:
  assumes "users_loop e mx us (ps, w) = (Fulfilled x, ps', w')"
    and "distinct (map uid us)" and "u \<in> set us"
  shows "\<exists>ps0 w0 y ps1 w1. remind_user e mx u (ps0, w0) = (Fulfilled y, ps1, w1)
           \<and> calendars w0 = calendars w \<and> map uid (users w0) = map uid (users w)
           \<and> find_user w0 (uid u) = find_user w (uid u)
           \<and> find_user w' (uid u) = find_user w1 (uid u)"
  using assms
proof (induction us arbitrary: ps w)
  case Nil
  then show ?case by simp
next
  case (Cons v us)
  obtain r1 ps1 w1 where b: "remind_user e mx v (ps, w) = (r1, ps1, w1)"
    by (cases "remind_user e mx v (ps, w)")
  with Cons.prems(1) obtain y where r1: "r1 = Fulfilled y"
    and rest: "users_loop e mx us (ps1, w1) = (Fulfilled x, ps', w')"
    by (cases r1) auto
  show ?case
  proof (cases "v = u")
    case True
    from Cons.prems(2) True have "\<forall>v' \<in> set us. uid v' \<noteq> uid u"
      by (auto simp: image_iff)
    with users_loop_frame [OF rest, of "uid u"]
    have "find_user w' (uid u) = find_user w1 (uid u)"
      by simp
    with b r1 True show ?thesis by blast
  next
    case False
    with Cons.prems(3) have mem: "u \<in> set us"
      by simp
    with Cons.prems(2) have ne: "uid u \<noteq> uid v"
      by (metis distinct.simps(2) image_eqI list.simps(9) set_map)
    from remind_user_frame [OF b, of "uid u"] ne
    have f: "calendars w1 = calendars w" "map uid (users w1) = map uid (users w)"
      "find_user w1 (uid u) = find_user w (uid u)"
      by auto
    from Cons.prems(2) have "distinct (map uid us)"
      by simp
    from Cons.IH [OF rest this mem] f show ?thesis by auto
  qed
qed

text \<open>
  When the store answers and no send is refused before the last statement, the loop over
  the stored users is fulfilled.
\<close>

lemma remind_user_fulfilled:
  assumes "\<forall>op. db_error e op = None" and "\<forall>s msg. send_outcome e s \<noteq> Refused_early msg"
    and "uid d \<in> uid ` set (users w)"
  shows "fst (remind_user e mx (init_user d) (ps, w)) = Fulfilled ()"
proof (cases "notifications d")
  case None
  then show ?thesis by (simp add: remind_user_def init_user_def)
next
  case (Some n)
  from remind_user_ok [OF Some assms, of mx ps] show ?thesis
    by (simp split: if_splits)
qed

lemma users_loop_fulfilled:
  assumes "\<forall>op. db_error e op = None" and "\<forall>s msg. send_outcome e s \<noteq> Refused_early msg"
    and "uid ` set ds \<subseteq> uid ` set (users w)"
  shows "fst (users_loop e mx (map init_user ds) (ps, w)) = Fulfilled ()"
  using assms(3)
proof (induction ds arbitrary: ps w)
  case Nil
  then show ?case by simp
next
  case (Cons d ds)
  obtain r1 ps1 w1 where b: "remind_user e mx (init_user d) (ps, w) = (r1, ps1, w1)"
    by (cases "remind_user e mx (init_user d) (ps, w)")
  from Cons.prems have "uid d \<in> uid ` set (users w)"
    by simp
  from remind_user_fulfilled [OF assms(1,2) this, of mx ps] b have r1: "r1 = Fulfilled ()"
    by simp
  from remind_user_frame [OF b, of 0] have "map uid (users w1) = map uid (users w)"
    by simp
  then have "uid ` set (users w1) = uid ` set (users w)"
    by (metis set_map)
  with Cons.prems have "uid ` set ds \<subseteq> uid ` set (users w1)"
    by simp
  from Cons.IH [OF this, of ps1] b r1 show ?case
    by simp
qed

text \<open>
  The sweep up to its last statement, when the connection and the store do not fail and
  no send is refused before that statement.
\<close>

lemma sendReminders_ok:
  assumes "matrix_enabled e \<longrightarrow> connect_error e = None" and "\<forall>op. db_error e op = None"
    and "\<forall>s msg. send_outcome e s \<noteq> Refused_early msg"
  shows "\<exists>w1 w2. calendars w1 = calendars w \<and> users w1 = users w
      \<and> users_loop e (matrix_enabled e) (map init_user (users w)) ([], w1)
          = (Fulfilled (), fst (snd (sendReminders e w)), w2)
      \<and> users (snd (snd (sendReminders e w))) = users w2
      \<and> calendars (snd (snd (sendReminders e w))) = calendars w2"
proof -
  obtain w1 where mc: "matrix_connect e w = (Fulfilled (matrix_enabled e), w1)"
    and w1: "calendars w1 = calendars w" "users w1 = users w"
    using assms(1) by (cases "matrix_enabled e") (auto simp: matrix_connect_def)
  have gu: "getUsers e w1 = Fulfilled (map init_user (users w))"
    using assms(2) by (simp add: getUsers_def w1)
  obtain r ps2 w2
    where ul: "users_loop e (matrix_enabled e) (map init_user (users w)) ([], w1) = (r, ps2, w2)"
    by (cases "users_loop e (matrix_enabled e) (map init_user (users w)) ([], w1)")
  from users_loop_fulfilled [OF assms(2,3), of "users w" w1 "matrix_enabled e" "[]"] ul w1
  have r: "r = Fulfilled ()"
    by simp
  obtain r3 w3 where dp: "dispatch e (matrix_enabled e) ps2 w2 = (r3, w3)"
    by (cases "dispatch e (matrix_enabled e) ps2 w2")
  from mc gu ul r dp have res: "sendReminders e w = (r3, ps2, w3)"
    by (simp add: sendReminders_def)
  have u3: "users w3 = users w2" "calendars w3 = calendars w2"
    using dp by (auto simp: dispatch_def split: promise.splits if_splits)
  from w1 ul r res u3 show ?thesis by auto
qed

lemma user_sends_all_done:
  assumes "notifications d = Some n" and "\<not> has_failing (today e) (calendars_of w (uid d))"
    and "enabled (streaks_done n)" and "channel (streaks_done n) \<noteq> []"
    and "\<not> sent_today (streaks_done n)" and "\<forall>op. db_error e op = None"
    and "\<forall>s msg. send_outcome e s \<noteq> Refused_early msg" and "uid d \<in> uid ` set (users w)"
  shows "user_sends e mx w (init_user d) =
     (if mx \<and> channel (streaks_done n) = ''matrix'' \<and> room_set (matrix n)
      then [(room_of (matrix n), StreaksDone)] else [])"
  using remind_user_ok [OF assms(1,6,7,8), of mx "[]"] assms(2-5)
  by (simp add: user_sends_def)

lemma user_sends_failing:
  assumes "notifications d = Some n" and "has_failing (today e) (calendars_of w (uid d))"
    and "\<forall>op. db_error e op = None"
    and "\<forall>s msg. send_outcome e s \<noteq> Refused_early msg" and "uid d \<in> uid ` set (users w)"
    and "\<not> (mx \<and> room_set (matrix n)
            \<and> hour_between (now e) (start_of (matrix n)) (end_of (matrix n)))"
  shows "user_sends e mx w (init_user d) = []"
  using remind_user_ok [OF assms(1,3,4,5), of mx "[]"] assms(2,6)
  by (auto simp: user_sends_def)

text \<open>The stored user after the body of the loop has run for it, in a sweep as above.\<close>

lemma sweep_stored_user:
  assumes "distinct (map uid (users w))" and "d \<in> set (users w)" and "notifications d = Some n"
    and "matrix_enabled e \<longrightarrow> connect_error e = None" and "\<forall>op. db_error e op = None"
    and "\<forall>s msg. send_outcome e s \<noteq> Refused_early msg"
  shows "fst (snd (sendReminders e w))
        = concat (map (user_sends e (matrix_enabled e) w) (map init_user (users w)))
    \<and> calendars (snd (snd (sendReminders e w))) = calendars w
    \<and> find_user (snd (snd (sendReminders e w))) (uid d) =
        Some (if has_failing (today e) (calendars_of w (uid d)) then
                (if sent_today (streaks_done n) then set_sent_today False d else d)
              else if enabled (streaks_done n) \<and> channel (streaks_done n) \<noteq> []
                      \<and> \<not> sent_today (streaks_done n) then set_sent_today True d
              else d)"
proof -
  let ?ps = "fst (snd (sendReminders e w))" and ?w' = "snd (snd (sendReminders e w))"
  from sendReminders_ok [OF assms(4,5,6), of w]
  obtain w1 w2 where w1: "calendars w1 = calendars w" "users w1 = users w"
    and ul: "users_loop e (matrix_enabled e) (map init_user (users w)) ([], w1)
        = (Fulfilled (), ?ps, w2)"
    and w2: "users ?w' = users w2" "calendars ?w' = calendars w2"
    by blast
  have "uid \<circ> init_user = uid"
    by (simp add: fun_eq_iff init_user_def)
  with assms(1) have dist: "distinct (map uid (map init_user (users w)))"
    by simp
  have mem: "init_user d \<in> set (map init_user (users w))"
    using assms(2) by simp
  have uid_d: "uid (init_user d) = uid d"
    by (simp add: init_user_def)
  have fu: "find_user w1 (uid d) = Some d"
    using find_user_by_id [OF assms(1,2)] by (simp add: find_user_def w1)
  from users_loop_sends [OF ul w1(1) assms(6)]
  have sends: "?ps = concat (map (user_sends e (matrix_enabled e) w) (map init_user (users w)))"
    by simp
  from users_loop_visits [OF ul dist mem]
  obtain ps0 w0 y ps1 wv
    where body: "remind_user e (matrix_enabled e) (init_user d) (ps0, w0) = (Fulfilled y, ps1, wv)"
      and c0: "calendars w0 = calendars w1" and f0: "find_user w0 (uid d) = find_user w1 (uid d)"
      and f2: "find_user w2 (uid d) = find_user wv (uid d)"
    by (auto simp: uid_d)
  from f0 fu have f0': "find (\<lambda>x. uid x = uid d) (users w0) = Some d"
    by (simp add: find_user_def)
  then have in0: "uid d \<in> uid ` set (users w0)"
    by (auto simp: find_Some_iff)
  have co: "calendars_of w0 (uid d) = calendars_of w (uid d)"
    by (simp add: calendars_of_def c0 w1)
  have fm: "find (\<lambda>x. uid x = uid d)
        (map (\<lambda>x. if uid x = uid d then set_sent_today b x else x) (users w0))
      = Some (set_sent_today b d)" for b
  proof -
    have "find (\<lambda>x. uid x = uid d)
          (map (\<lambda>x. if uid x = uid d then set_sent_today b x else x) (users w0))
        = map_option (\<lambda>x. if uid x = uid d then set_sent_today b x else x)
            (find (\<lambda>x. uid x = uid d) (users w0))"
      by (rule find_map_uid) (simp add: uid_set_sent_today)
    with f0' show ?thesis by simp
  qed
  from remind_user_ok [OF assms(3,5,6) in0, of "matrix_enabled e" ps0] body
  have "find_user wv (uid d) =
        Some (if has_failing (today e) (calendars_of w (uid d)) then
                (if sent_today (streaks_done n) then set_sent_today False d else d)
              else if enabled (streaks_done n) \<and> channel (streaks_done n) \<noteq> []
                      \<and> \<not> sent_today (streaks_done n) then set_sent_today True d
              else d)"
    by (auto simp: co find_user_def fm f0' split: if_splits)
  with f2 have fin: "find_user ?w' (uid d) =
        Some (if has_failing (today e) (calendars_of w (uid d)) then
                (if sent_today (streaks_done n) then set_sent_today False d else d)
              else if enabled (streaks_done n) \<and> channel (streaks_done n) \<noteq> []
                      \<and> \<not> sent_today (streaks_done n) then set_sent_today True d
              else d)"
    by (simp add: find_user_def w2)
  have cals: "calendars ?w' = calendars w"
    using users_loop_frame [OF ul, of 0] by (simp add: w2 w1)
  from sends cals fin show ?thesis by simp
qed

text \<open>Without Matrix the loop pushes nothing.\<close>

lemma users_loop_no_matrix: "fst (snd (users_loop e False us (ps, w))) = ps"
proof (induction us arbitrary: ps w)
  case Nil
  then show ?case by simp
next
  case (Cons u us)
  obtain r1 ps1 w1 where b: "remind_user e False u (ps, w) = (r1, ps1, w1)"
    by (cases "remind_user e False u (ps, w)")
  then have "ps1 = ps"
    by (auto simp: remind_user_def Let_def
        split: option.splits promise.splits prod.splits if_splits)
  with b Cons show ?case by (cases r1) auto
qed

text \<open>
  C4, as the code has it. For every user of a store with unique identifiers whose
  calendars with the \<^verbatim>\<open>reminders\<close> flag all have a status today that is not \<open>fail\<close>, with
  \<^verbatim>\<open>streaks_done.enabled\<close> set, a channel chosen (\<^verbatim>\<open>streaks_done.channel\<close> not empty) and
  \<^verbatim>\<open>sent_today\<close> not set, at a time of day inside the window of the user: a sweep in
  which the connection to the chat service (when Matrix is enabled) and the store do not
  fail, and no send is refused before the last statement, has pushed, user after user,
  what the body of its loop pushes for each; for this user that is the congratulation,
  exactly once, when Matrix is enabled, the channel is \<^verbatim>\<open>matrix\<close> and a room is set, and
  nothing otherwise; \<^verbatim>\<open>sent_today\<close> is set in the store in either case, the calendars
  are as they were, and the body of a later sweep pushes no congratulation for the user as
  stored, whatever that sweep meets.
\<close>

theorem sendReminders_all_done:
  assumes "distinct (map uid (users w))" and "d \<in> set (users w)" and "notifications d = Some n"
    and "\<not> has_failing (today e) (calendars_of w (uid d))"
    and "enabled (streaks_done n)" and "channel (streaks_done n) \<noteq> []"
    and "\<not> sent_today (streaks_done n)"
    and "hour_between (now e) (start_of (matrix n)) (end_of (matrix n))"
    and "matrix_enabled e \<longrightarrow> connect_error e = None" and "\<forall>op. db_error e op = None"
    and "\<forall>s msg. send_outcome e s \<noteq> Refused_early msg"
  shows "fst (snd (sendReminders e w))
        = concat (map (user_sends e (matrix_enabled e) w) (map init_user (users w)))
    \<and> user_sends e (matrix_enabled e) w (init_user d) =
        (if matrix_enabled e \<and> channel (streaks_done n) = ''matrix'' \<and> room_set (matrix n)
         then [(room_of (matrix n), StreaksDone)] else [])
    \<and> find_user (snd (snd (sendReminders e w))) (uid d) = Some (set_sent_today True d)
    \<and> stored_sent_today (snd (snd (sendReminders e w))) (uid d) = Some True
    \<and> calendars (snd (snd (sendReminders e w))) = calendars w
    \<and> (\<forall>e2 mx2 ps2.
          filter is_streaks_done
            (fst (snd (remind_user e2 mx2 (init_user (set_sent_today True d))
               (ps2, snd (snd (sendReminders e w))))))
          = filter is_streaks_done ps2)"
proof -
  let ?w' = "snd (snd (sendReminders e w))"
  from sweep_stored_user [OF assms(1,2,3,9,10,11)] assms(4-7)
  have sends: "fst (snd (sendReminders e w))
        = concat (map (user_sends e (matrix_enabled e) w) (map init_user (users w)))"
    and cals: "calendars ?w' = calendars w"
    and fin: "find_user ?w' (uid d) = Some (set_sent_today True d)"
    by simp_all
  from fin have st: "stored_sent_today ?w' (uid d) = Some True"
    using assms(3) by (simp add: stored_sent_today_def set_sent_today_def)
  have "uid d \<in> uid ` set (users w)"
    using assms(2) by simp
  from user_sends_all_done [OF assms(3,4,5,6,7,10,11) this, of "matrix_enabled e"]
  have own: "user_sends e (matrix_enabled e) w (init_user d) =
        (if matrix_enabled e \<and> channel (streaks_done n) = ''matrix'' \<and> room_set (matrix n)
         then [(room_of (matrix n), StreaksDone)] else [])" .
  have n': "notifications (init_user (set_sent_today True d))
      = Some (n\<lparr>streaks_done := (streaks_done n)\<lparr>sent_today := True\<rparr>\<rparr>)"
    using assms(3) by (simp add: init_user_def set_sent_today_def)
  have again: "filter is_streaks_done
      (fst (snd (remind_user e2 mx2 (init_user (set_sent_today True d)) (ps2, ?w'))))
    = filter is_streaks_done ps2" for e2 mx2 ps2
    by (rule remind_user_no_streaks_done [OF n']) simp
  from sends own fin st cals again show ?thesis by simp
qed

theorem sendReminders_all_done_witness:
  "map_option (\<lambda>n. hour_between (now saturday_night) (start_of (matrix n)) (end_of (matrix n)))
      (notifications bob) = Some True
   \<and> user_sends saturday_night True store1 (init_user bob) = [(''!bob'', StreaksDone)]
   \<and> fst (snd (sendReminders saturday_night store1)) = [(''!bob'', StreaksDone)]
   \<and> stored_sent_today (snd (snd (sendReminders saturday_night store1))) 2 = Some True
   \<and> filter is_streaks_done (fst (snd (remind_user saturday_night True
        (init_user (set_sent_today True bob))
        ([], snd (snd (sendReminders saturday_night store1)))))) = []"
proof -
  have h: "distinct (map uid (users store1))" "bob \<in> set (users store1)"
    "notifications bob = Some (the (notifications bob))"
    "\<not> has_failing (today saturday_night) (calendars_of store1 (uid bob))"
    "enabled (streaks_done (the (notifications bob)))"
    "channel (streaks_done (the (notifications bob))) \<noteq> []"
    "\<not> sent_today (streaks_done (the (notifications bob)))"
    "hour_between (now saturday_night) (start_of (matrix (the (notifications bob))))
       (end_of (matrix (the (notifications bob))))"
    "matrix_enabled saturday_night \<longrightarrow> connect_error saturday_night = None"
    "\<forall>op. db_error saturday_night op = None"
    "\<forall>s msg. send_outcome saturday_night s \<noteq> Refused_early msg"
    by (simp_all add: example_user_defs has_failing_def calendars_of_def reminders_on_def
        done_today_def hour_between_def minutes_def start_of_def end_of_def)
  have v: "uid bob = 2" "room_of (matrix (the (notifications bob))) = ''!bob''"
    "room_set (matrix (the (notifications bob)))"
    "channel (streaks_done (the (notifications bob))) = ''matrix''"
    "matrix_enabled saturday_night"
    by (simp_all add: bob_def saturday_def saturday_night_def room_of_def room_set_def)
  have c1: "map_option (\<lambda>n. hour_between (now saturday_night) (start_of (matrix n)) (end_of (matrix n)))
      (notifications bob) = Some True"
    by (simp add: example_user_defs hour_between_def minutes_def start_of_def end_of_def)
  have c3: "fst (snd (sendReminders saturday_night store1)) = [(''!bob'', StreaksDone)]"
    by code_simp
  note T = sendReminders_all_done [OF h]
  note own = T [THEN conjunct2, THEN conjunct1]
  note flag = T [THEN conjunct2, THEN conjunct2, THEN conjunct2, THEN conjunct1]
  note later = T [THEN conjunct2, THEN conjunct2, THEN conjunct2, THEN conjunct2, THEN conjunct2,
    rule_format, of saturday_night True "[]"]
  from own v(2-5) have c2: "user_sends saturday_night True store1 (init_user bob) = [(''!bob'', StreaksDone)]"
    by simp
  from flag have c4: "stored_sent_today (snd (snd (sendReminders saturday_night store1))) 2 = Some True"
    unfolding v(1) .
  from later have c5: "filter is_streaks_done (fst (snd (remind_user saturday_night True
        (init_user (set_sent_today True bob))
        ([], snd (snd (sendReminders saturday_night store1)))))) = []"
    by simp
  show ?thesis
    by (intro conjI) (fact c1 c2 c3 c4 c5)+
qed

theorem all_done_counterexample:
  "map_option (\<lambda>n. (enabled (streaks_done n), sent_today (streaks_done n))) (notifications carol)
     = Some (True, False)
   \<and> \<not> has_failing (today saturday) (calendars_of store1 (uid carol))
   \<and> filter (\<lambda>s. fst s = ''!carol'') (fst (snd (sendReminders saturday store1))) = []
   \<and> stored_sent_today (snd (snd (sendReminders saturday store1))) (uid carol) = Some False
   \<and> map_option (\<lambda>n. (enabled (streaks_done n), sent_today (streaks_done n))) (notifications bob)
     = Some (True, False)
   \<and> \<not> has_failing (today saturday_night) (calendars_of store1 (uid bob))
   \<and> fst (sendReminders saturday_night_no_matrix store1) = Fulfilled ()
   \<and> fst (snd (sendReminders saturday_night_no_matrix store1)) = []
   \<and> stored_sent_today (snd (snd (sendReminders saturday_night_no_matrix store1))) (uid bob)
     = Some True
   \<and> fst (sendReminders saturday_night_no_connect store1) = Rejected ''no homeserver''
   \<and> fst (snd (sendReminders saturday_night_no_connect store1)) = []
   \<and> stored_sent_today (snd (snd (sendReminders saturday_night_no_connect store1))) (uid bob)
     = Some False
   \<and> fst (snd (sendReminders saturday_night_no_flag store1)) = [(''!bob'', StreaksDone)]
   \<and> stored_sent_today (snd (snd (sendReminders saturday_night_no_flag store1))) (uid bob)
     = Some False
   \<and> fst (snd (sendReminders saturday_night_no_flag
        (snd (snd (sendReminders saturday_night_no_flag store1))))) = [(''!bob'', StreaksDone)]"
  by code_simp

text \<open>
  C5, as the code has it. For every user of a store with unique identifiers who has a
  calendar with the \<^verbatim>\<open>reminders\<close> flag whose status today is absent or \<open>fail\<close>, and
  whose \<^verbatim>\<open>sent_today\<close> is set: a sweep in which the connection to the chat service (when
  Matrix is enabled) and the store do not fail, and no send is refused before the last
  statement, has reset \<^verbatim>\<open>sent_today\<close> in the store. Nothing is asked of the room, of
  the window or of how the sends end at the last statement: when Matrix is disabled, no
  room is set or the time is outside the window, the sweep pushes no reminder for the user
  and resets the flag all the same.
\<close>

theorem sendReminders_resets:
  assumes "distinct (map uid (users w))" and "d \<in> set (users w)" and "notifications d = Some n"
    and "has_failing (today e) (calendars_of w (uid d))"
    and "sent_today (streaks_done n)"
    and "matrix_enabled e \<longrightarrow> connect_error e = None" and "\<forall>op. db_error e op = None"
    and "\<forall>s msg. send_outcome e s \<noteq> Refused_early msg"
  shows "stored_sent_today (snd (snd (sendReminders e w))) (uid d) = Some False
    \<and> fst (snd (sendReminders e w))
        = concat (map (user_sends e (matrix_enabled e) w) (map init_user (users w)))
    \<and> (\<not> (matrix_enabled e \<and> room_set (matrix n)
            \<and> hour_between (now e) (start_of (matrix n)) (end_of (matrix n)))
        \<longrightarrow> user_sends e (matrix_enabled e) w (init_user d) = [])
    \<and> (\<not> matrix_enabled e \<longrightarrow> fst (snd (sendReminders e w)) = [])"
proof -
  let ?w' = "snd (snd (sendReminders e w))"
  from sweep_stored_user [OF assms(1,2,3,6,7,8)] assms(4,5)
  have sends: "fst (snd (sendReminders e w))
        = concat (map (user_sends e (matrix_enabled e) w) (map init_user (users w)))"
    and fin: "find_user ?w' (uid d) = Some (set_sent_today False d)"
    by simp_all
  from fin have st: "stored_sent_today ?w' (uid d) = Some False"
    using assms(3) by (simp add: stored_sent_today_def set_sent_today_def)
  have ind: "uid d \<in> uid ` set (users w)"
    using assms(2) by simp
  have own: "user_sends e (matrix_enabled e) w (init_user d) = []"
    if "\<not> (matrix_enabled e \<and> room_set (matrix n)
            \<and> hour_between (now e) (start_of (matrix n)) (end_of (matrix n)))"
    by (rule user_sends_failing [OF assms(3,4,7,8) ind that])
  have none: "fst (snd (sendReminders e w)) = []" if "\<not> matrix_enabled e"
  proof -
    from sendReminders_ok [OF assms(6,7,8), of w]
    obtain w1 w2 where "users_loop e (matrix_enabled e) (map init_user (users w)) ([], w1)
        = (Fulfilled (), fst (snd (sendReminders e w)), w2)"
      by blast
    with users_loop_no_matrix [of e "map init_user (users w)" "[]" w1] that show ?thesis
      by simp
  qed
  from st sends own none show ?thesis by blast
qed

theorem sendReminders_resets_witness:
  "stored_sent_today store1 1 = Some True
   \<and> has_failing (today saturday_no_matrix) (calendars_of store1 1)
   \<and> fst (snd (sendReminders saturday_no_matrix store1)) = []
   \<and> stored_sent_today (snd (snd (sendReminders saturday_no_matrix store1))) 1 = Some False
   \<and> user_sends saturday_night True store1 (init_user alice) = []
   \<and> stored_sent_today (snd (snd (sendReminders saturday_night store1))) 1 = Some False
   \<and> stored_sent_today (snd (snd (sendReminders saturday store1))) 1 = Some False"
proof -
  have h: "distinct (map uid (users store1))" "alice \<in> set (users store1)"
    "notifications alice = Some (the (notifications alice))"
    "has_failing (today saturday_no_matrix) (calendars_of store1 (uid alice))"
    "sent_today (streaks_done (the (notifications alice)))"
    by (simp_all add: example_user_defs has_failing_def calendars_of_def reminders_on_def
        done_today_def)
  have t: "today saturday_night = today saturday_no_matrix"
    "today saturday = today saturday_no_matrix"
    by (simp_all add: example_user_defs)
  have ok: "matrix_enabled saturday_no_matrix \<longrightarrow> connect_error saturday_no_matrix = None"
    "\<forall>op. db_error saturday_no_matrix op = None"
    "\<forall>s msg. send_outcome saturday_no_matrix s \<noteq> Refused_early msg"
    "matrix_enabled saturday_night \<longrightarrow> connect_error saturday_night = None"
    "\<forall>op. db_error saturday_night op = None"
    "\<forall>s msg. send_outcome saturday_night s \<noteq> Refused_early msg"
    "matrix_enabled saturday \<longrightarrow> connect_error saturday = None"
    "\<forall>op. db_error saturday op = None"
    "\<forall>s msg. send_outcome saturday s \<noteq> Refused_early msg"
    by (simp_all add: example_user_defs)
  have v: "uid alice = 1" "stored_sent_today store1 1 = Some True"
    "\<not> matrix_enabled saturday_no_matrix" "matrix_enabled saturday_night"
    "\<not> hour_between (now saturday_night) (start_of (matrix (the (notifications alice))))
         (end_of (matrix (the (notifications alice))))"
    by (simp_all add: example_user_defs stored_sent_today_def find_user_def hour_between_def
        minutes_def start_of_def end_of_def)
  note T1 = sendReminders_resets [OF h ok(1,2,3)]
  note T2 = sendReminders_resets [OF h(1,2,3) h(4) [folded t(1)] h(5) ok(4,5,6)]
  note T3 = sendReminders_resets [OF h(1,2,3) h(4) [folded t(2)] h(5) ok(7,8,9)]
  from h(4) have c2: "has_failing (today saturday_no_matrix) (calendars_of store1 1)"
    unfolding v(1) .
  from T1 [THEN conjunct2, THEN conjunct2, THEN conjunct2] v(3)
  have c3: "fst (snd (sendReminders saturday_no_matrix store1)) = []"
    by simp
  from T1 [THEN conjunct1]
  have c4: "stored_sent_today (snd (snd (sendReminders saturday_no_matrix store1))) 1 = Some False"
    unfolding v(1) .
  from T2 [THEN conjunct2, THEN conjunct2, THEN conjunct1] v(4,5)
  have c5: "user_sends saturday_night True store1 (init_user alice) = []"
    by simp
  from T2 [THEN conjunct1]
  have c6: "stored_sent_today (snd (snd (sendReminders saturday_night store1))) 1 = Some False"
    unfolding v(1) .
  from T3 [THEN conjunct1]
  have c7: "stored_sent_today (snd (snd (sendReminders saturday store1))) 1 = Some False"
    unfolding v(1) .
  show ?thesis
    by (intro conjI) (fact v(2) c2 c3 c4 c5 c6 c7)+
qed

theorem sendReminders_resets_counterexample:
  "has_failing (today saturday_no_connect) (calendars_of store1 (uid alice))
   \<and> stored_sent_today store1 (uid alice) = Some True
   \<and> fst (sendReminders saturday_no_connect store1) = Rejected ''no homeserver''
   \<and> stored_sent_today (snd (snd (sendReminders saturday_no_connect store1))) (uid alice)
     = Some True
   \<and> fst (sendReminders saturday_no_reset store1) = Rejected ''no connection''
   \<and> stored_sent_today (snd (snd (sendReminders saturday_no_reset store1))) (uid alice)
     = Some True"
  by code_simp

text \<open>
  C6. Outside the window of a user a sweep is to send neither a reminder nor the
  congratulation for all calendars done. The reminder is held back
  (\<open>remind_user_window\<close>), as is the congratulation for one calendar
  (\<open>sendCongratulation_window\<close>); the congratulation for all calendars done is pushed
  without the test of the window: at noon, for a user with a window from 22:00 to 06:00
  whose only calendar is done, the sweep sends it.
\<close>

theorem streaks_done_outside_window:
  "map_option (\<lambda>n. hour_between (now saturday) (start_of (matrix n)) (end_of (matrix n)))
      (notifications bob) = Some False
   \<and> filter (\<lambda>s. fst s = ''!bob'') (fst (snd (sendReminders saturday store1)))
      = [(''!bob'', StreaksDone)]"
  by code_simp

section \<open>Properties of sendCongratulation\<close>

lemma matrix_connect_cases:
  "matrix_connect e w =
     (if matrix_enabled e \<and> connect_error e = None then (Fulfilled True, w\<lparr>connected := True\<rparr>)
      else if matrix_enabled e then (Rejected (the (connect_error e)), w)
      else (Fulfilled False, w))"
  by (auto simp: matrix_connect_def split: option.splits)

text \<open>Outside the window of the user no congratulation for a calendar is pushed.\<close>

lemma sendCongratulation_window:
  assumes "notifications u = Some n"
    and "\<not> hour_between (now e) (start_of (matrix n)) (end_of (matrix n))"
  shows "fst (snd (sendCongratulation e u c w)) = []"
  using assms
  by (auto simp: sendCongratulation_def matrix_connect_cases Let_def
      split: prod.splits option.splits)

text \<open>
  C7, as the code has it. \<^verbatim>\<open>sendCongratulation\<close> sends nothing when today's status of
  the calendar is present and is not \<open>success\<close>. When today's status is \<open>success\<close>, or
  absent, it sends the congratulation at every call for which Matrix is enabled and
  connects, a room is set and the time is in the window of the user: the function keeps
  nothing that would hold back a second call.
\<close>

theorem sendCongratulation_guard:
  "(\<forall>s. map_of (days c) (today e) = Some s \<and> s \<noteq> Success
       \<longrightarrow> fst (snd (sendCongratulation e u c w)) = [])
   \<and> (\<forall>n. (map_of (days c) (today e) = Some Success \<or> map_of (days c) (today e) = None)
          \<and> notifications u = Some n \<and> matrix_enabled e \<and> connect_error e = None
          \<and> room_set (matrix n)
          \<and> hour_between (now e) (start_of (matrix n)) (end_of (matrix n))
       \<longrightarrow> fst (snd (sendCongratulation e u c w)) = [(room_of (matrix n), Congratulation c)])"
  by (auto simp: sendCongratulation_def matrix_connect_cases Let_def
      split: prod.splits option.splits)

theorem sendCongratulation_guard_witness:
  "map_of (days cal_read) (today saturday) = Some Fail
   \<and> fst (snd (sendCongratulation saturday (init_user alice) cal_read store1)) = []
   \<and> map_of (days cal_run) (today saturday_night) = Some Success
   \<and> fst (snd (sendCongratulation saturday_night (init_user bob) cal_run store1))
       = [(''!bob'', Congratulation cal_run)]"
proof -
  have a: "map_of (days cal_read) (today saturday) = Some Fail" "Fail \<noteq> Success"
    by (simp_all add: example_user_defs)
  have b: "map_of (days cal_run) (today saturday_night) = Some Success"
    "notifications (init_user bob) = Some (the (notifications bob))"
    "matrix_enabled saturday_night" "connect_error saturday_night = None"
    "room_set (matrix (the (notifications bob)))"
    "hour_between (now saturday_night) (start_of (matrix (the (notifications bob))))
       (end_of (matrix (the (notifications bob))))"
    "room_of (matrix (the (notifications bob))) = ''!bob''"
    by (simp_all add: example_user_defs init_user_def room_set_def room_of_def hour_between_def
        minutes_def start_of_def end_of_def)
  from sendCongratulation_guard [of cal_read saturday "init_user alice" store1]
    sendCongratulation_guard [of cal_run saturday_night "init_user bob" store1] a b
  show ?thesis by auto
qed

theorem sendCongratulation_counterexample:
  "map_of (days cal_swim) (today saturday) = Some Success
   \<and> fst (snd (sendCongratulation saturday (init_user carol) cal_swim store1))
       = [(''!carol'', Congratulation cal_swim)]
   \<and> fst (snd (sendCongratulation saturday (init_user carol) cal_swim
         (snd (snd (sendCongratulation saturday (init_user carol) cal_swim store1)))))
       = [(''!carol'', Congratulation cal_swim)]"
  by code_simp

section \<open>Properties of the dispatch\<close>

text \<open>
  The last statement: while a send pushed has not settled the awaited promise is pending
  and the connection is left as it is; once all have settled, accepted or refused, the
  promise is fulfilled and the chat service is disconnected.
\<close>

lemma dispatch_join:
  "(Pending \<in> set (map (\<lambda>s. settled (send_outcome e s)) ps)
      \<longrightarrow> dispatch e mx ps w = (Pending, w))
   \<and> (Pending \<notin> set (map (\<lambda>s. settled (send_outcome e s)) ps)
      \<longrightarrow> dispatch e mx ps w = (Fulfilled (), if mx then w\<lparr>connected := False\<rparr> else w))"
  by (simp add: dispatch_def allSettled_def)

text \<open>
  C8. A failed send is to leave the other sends and the batch untouched, and the chat
  service is to be disconnected once all sends have settled. A refusal that the last
  statement finds is tolerated so (\<open>dispatch_join\<close>, and the third run below). A send
  refused earlier, while the sweep awaits the store, has no handler on its promise yet:
  when the reminder of the first user is refused during the update of that user's flag,
  the process ends, the congratulation of the second user is never started, the last
  statement is not reached and the chat service stays connected.
\<close>

theorem refused_send_ends_sweep:
  "fst (snd (sendReminders saturday store1))
     = [(''!alice'', Reminder [\<lparr>sum_name = ''gym'', sum_fail = True, sum_streaks = 0\<rparr>,
                               \<lparr>sum_name = ''read'', sum_fail = True, sum_streaks = 0\<rparr>]),
        (''!bob'', StreaksDone)]
   \<and> fst (sendReminders saturday store1) = Fulfilled ()
   \<and> connected (snd (snd (sendReminders saturday store1))) = False
   \<and> send_outcome saturday_refused_early
        (''!alice'', Reminder [\<lparr>sum_name = ''gym'', sum_fail = True, sum_streaks = 0\<rparr>,
                               \<lparr>sum_name = ''read'', sum_fail = True, sum_streaks = 0\<rparr>])
       = Refused_early ''M_FORBIDDEN''
   \<and> fst (snd (sendReminders saturday_refused_early store1))
     = [(''!alice'', Reminder [\<lparr>sum_name = ''gym'', sum_fail = True, sum_streaks = 0\<rparr>,
                               \<lparr>sum_name = ''read'', sum_fail = True, sum_streaks = 0\<rparr>])]
   \<and> fst (sendReminders saturday_refused_early store1) = Pending
   \<and> exited (snd (snd (sendReminders saturday_refused_early store1))) = True
   \<and> connected (snd (snd (sendReminders saturday_refused_early store1))) = True
   \<and> fst (snd (sendReminders saturday_refused store1)) = fst (snd (sendReminders saturday store1))
   \<and> fst (sendReminders saturday_refused store1) = Fulfilled ()
   \<and> connected (snd (snd (sendReminders saturday_refused store1))) = False"
  by code_simp

section \<open>Properties of addCalendar\<close>

lemma fold_max_upper: "\<forall>x \<in> set xs. x \<le> fold max xs (m :: nat)"
proof (induction xs arbitrary: m)
  case Nil
  show ?case by simp
next
  case (Cons a xs)
  have "\<And>k :: nat. k \<le> fold max xs k"
    by (induction xs) (auto intro: order_trans [OF max.cobounded2])
  with Cons show ?case
    by (auto intro: order_trans [OF max.cobounded1])
qed

lemma new_cal_id_fresh: "new_cal_id w \<notin> cal_id ` set (calendars w)"
proof -
  have "\<forall>x \<in> set (map cal_id (calendars w)). x < new_cal_id w"
    unfolding new_cal_id_def using fold_max_upper [of "map cal_id (calendars w)" 0]
    by (meson le_imp_less_Suc)
  then show ?thesis by auto
qed

text \<open>
  C9. Whenever \<^verbatim>\<open>addCalendar\<close> is fulfilled, the calendar it has saved and returns has
  the agenda \<^verbatim>\<open>[1, 1, 1, 1, 1, 1, 1]\<close>, so that each of the 7 weekdays is expected, an
  empty day map, and both notification flags set; it carries the name given and the
  identifier of the user, and it is added to the stored calendars. For an initialised
  user that the store knows, with a store that answers, \<^verbatim>\<open>addCalendar\<close> is fulfilled.
\<close>

theorem addCalendar_new:
  "(\<forall>c w'. addCalendar e this nm w = (Fulfilled c, w')
       \<longrightarrow> agenda c = [1, 1, 1, 1, 1, 1, 1] \<and> (\<forall>wd < 7. agenda_expected (agenda c) wd)
           \<and> days c = [] \<and> cal_notifications c = Some \<lparr>reminders = True, congrats = True\<rparr>
           \<and> name c = nm \<and> user_id c = uid this \<and> cal_id c \<notin> cal_id ` set (calendars w)
           \<and> calendars w' = calendars w @ [c])
   \<and> (initialized this \<and> uid this \<in> uid ` set (users w)
        \<and> db_error e (GetUserById (uid this)) = None \<and> db_error e SaveCalendar = None
       \<longrightarrow> (\<exists>c w'. addCalendar e this nm w = (Fulfilled c, w')))"
proof -
  have exp: "\<forall>wd < 7. agenda_expected [1, 1, 1, 1, 1, 1, 1] wd"
    by (auto simp: agenda_expected_def nth_Cons split: nat.splits)
  have made: "agenda c = [1, 1, 1, 1, 1, 1, 1] \<and> (\<forall>wd < 7. agenda_expected (agenda c) wd)
           \<and> days c = [] \<and> cal_notifications c = Some \<lparr>reminders = True, congrats = True\<rparr>
           \<and> name c = nm \<and> user_id c = uid this \<and> cal_id c \<notin> cal_id ` set (calendars w)
           \<and> calendars w' = calendars w @ [c]"
    if "addCalendar e this nm w = (Fulfilled c, w')" for c w'
  proof -
    from that obtain d where "find (\<lambda>d. uid d = uid this) (users w) = Some d"
      and c: "c = \<lparr>cal_id = new_cal_id w, user_id = uid (init_user d), name = nm,
                   agenda = [1, 1, 1, 1, 1, 1, 1], days = [],
                   cal_notifications = Some \<lparr>reminders = True, congrats = True\<rparr>\<rparr>"
      and w': "w' = w\<lparr>calendars := calendars w @ [c]\<rparr>"
      by (auto simp: addCalendar_def getUserById_def Let_def split: if_splits option.splits)
    then have "uid d = uid this"
      by (auto simp: find_Some_iff)
    with c w' new_cal_id_fresh [of w] exp show ?thesis
      by (simp add: init_user_def)
  qed
  have runs: "\<exists>c w'. addCalendar e this nm w = (Fulfilled c, w')"
    if "initialized this" "uid this \<in> uid ` set (users w)"
      "db_error e (GetUserById (uid this)) = None" "db_error e SaveCalendar = None"
  proof -
    from that(2) obtain d where "find (\<lambda>d. uid d = uid this) (users w) = Some d"
      by (cases "find (\<lambda>d. uid d = uid this) (users w)") (auto simp: find_None_iff)
    with that show ?thesis
      by (simp add: addCalendar_def getUserById_def Let_def)
  qed
  from made runs show ?thesis by blast
qed

theorem addCalendar_new_witness:
  "addCalendar saturday (init_user bob) ''piano'' store1
     = (Fulfilled \<lparr>cal_id = 5, user_id = 2, name = ''piano'', agenda = [1, 1, 1, 1, 1, 1, 1],
          days = [], cal_notifications = Some \<lparr>reminders = True, congrats = True\<rparr>\<rparr>,
        store1\<lparr>calendars := calendars store1 @
          [\<lparr>cal_id = 5, user_id = 2, name = ''piano'', agenda = [1, 1, 1, 1, 1, 1, 1],
            days = [], cal_notifications = Some \<lparr>reminders = True, congrats = True\<rparr>\<rparr>]\<rparr>)
   \<and> agenda_expected [1, 1, 1, 1, 1, 1, 1] 0 \<and> agenda_expected [1, 1, 1, 1, 1, 1, 1] 6"
proof -
  let ?c = "\<lparr>cal_id = 5, user_id = 2, name = ''piano'', agenda = [1, 1, 1, 1, 1, 1, 1],
          days = [], cal_notifications = Some \<lparr>reminders = True, congrats = True\<rparr>\<rparr>"
  have run: "addCalendar saturday (init_user bob) ''piano'' store1
     = (Fulfilled ?c, store1\<lparr>calendars := calendars store1 @ [?c]\<rparr>)"
    by code_simp
  from addCalendar_new [of saturday "init_user bob" "''piano''" store1] run
  have "\<forall>wd < 7. agenda_expected (agenda ?c) wd"
    by blast
  then have "agenda_expected (agenda ?c) 0 \<and> agenda_expected (agenda ?c) 6"
    by simp
  with run show ?thesis by simp
qed

end
